theory Spec2Isabelle
  imports Complex_Main "HOL-Library.Log_Nat"
begin

unbundle bit_operations_syntax

section \<open>Numbers of the source\<close>

text \<open>
  Every number of the TypeScript source is an IEEE-754 double. Frame numbers, counters
  and zones are integers that start at 0 and that the source only increments by 1 and
  compares; they are modelled as \<open>int\<close> (a run would need \<open>2 ^ 53\<close> calls to take one of
  them out of the range where doubles are exact). The seed and the boss's hit points are
  arguments of the constructor, of type \<open>number\<close>, and the generator and the stagger meter
  compute with products beyond \<open>2 ^ 53\<close> and with fractions: the seed, the generator's
  state, the stagger, \<open>bossHP\<close>, \<open>bossMaxHP\<close> and \<open>damageDealt\<close> are rationals, and every
  arithmetic operation of the source on them is followed by the rounding \<open>fl\<close> to the
  nearest double, ties to even. A finite double is a rational; the only infinity the source
  can produce from finite arguments is in the generator's product and sum, and is treated
  there (adding or subtracting a damage of 1 or 3 cannot leave the range of the doubles).
\<close>

definition pow2 :: "int \<Rightarrow> rat" where
  "pow2 e = (if 0 \<le> e then 2 ^ nat e else 1 / 2 ^ nat (- e))"

text \<open>Round to the nearest integer, ties to the even one.\<close>

definition rne :: "rat \<Rightarrow> int" where
  "rne y = (let f = \<lfloor>y\<rfloor>; d = y - of_int f in
     if d < 1 / 2 then f
     else if 1 / 2 < d then f + 1
     else if even f then f else f + 1)"

text \<open>The binary exponent of a positive rational: \<open>2 ^ e \<le> x < 2 ^ (e + 1)\<close>.\<close>

definition expo :: "rat \<Rightarrow> int" where
  "expo x = (case quotient_of x of (p, q) \<Rightarrow>
     (let e0 = bitlen p - bitlen q in if pow2 e0 \<le> x then e0 else e0 - 1))"

text \<open>
  Rounding of a non-negative rational to 53 significant bits; below \<open>2 ^ - 1022\<close> the
  spacing stays \<open>2 ^ - 1074\<close> (subnormal numbers).
\<close>

definition flp :: "rat \<Rightarrow> rat" where
  "flp x = (if x = 0 then 0
     else (let u = pow2 (max (expo x - 52) (- 1074)) in of_int (rne (x / u)) * u))"

definition fl :: "rat \<Rightarrow> rat" where
  "fl x = (if x < 0 then - flp (- x) else flp x)"

text \<open>A rounded result of \<open>2 ^ 1024\<close> or more is an infinity in the source.\<close>

definition overflows :: "rat \<Rightarrow> bool" where
  "overflows x = (x \<noteq> 0 \<and> 1024 \<le> expo \<bar>x\<bar>)"

definition trunc :: "rat \<Rightarrow> int" where
  "trunc x = (if 0 \<le> x then \<lfloor>x\<rfloor> else \<lceil>x\<rceil>)"

text \<open>ECMAScript ToInt32 of a finite number: truncate, wrap to 32 bits, read as signed.\<close>

definition ToInt32 :: "rat \<Rightarrow> int" where
  "ToInt32 x = (let n = trunc x mod 2 ^ 32 in if 2 ^ 31 \<le> n then n - 2 ^ 32 else n)"

section \<open>Configuration and data model\<close>

datatype GameMode = STANDARD | PRACTICE

definition PARRY_WINDOW_FRAMES :: int where "PARRY_WINDOW_FRAMES = 15"
definition IMPACT_DELAY_FRAMES :: int where "IMPACT_DELAY_FRAMES = 25"
definition BLOCK_WINDOW_FRAMES :: int where "BLOCK_WINDOW_FRAMES = 30"
definition BLOCK_STAGGER :: rat where "BLOCK_STAGGER = 5"
definition PARRY_STAGGER :: rat where "PARRY_STAGGER = 25"
definition STAGGER_MAX :: rat where "STAGGER_MAX = 100"
definition STAGGER_DECAY_PER_SECOND :: rat where "STAGGER_DECAY_PER_SECOND = 1 / 2"
definition TICKS_PER_SECOND :: rat where "TICKS_PER_SECOND = 60"
definition VULNERABILITY_DURATION_FRAMES :: int where "VULNERABILITY_DURATION_FRAMES = 180"
definition SAFE_ATTACK_DAMAGE :: rat where "SAFE_ATTACK_DAMAGE = 1"
definition CRITICAL_DAMAGE :: rat where "CRITICAL_DAMAGE = 3"
definition ZONE_LEFT :: int where "ZONE_LEFT = 0"
definition ZONE_CENTER :: int where "ZONE_CENTER = 1"
definition ZONE_RIGHT :: int where "ZONE_RIGHT = 2"

record Attack =
  id_attack :: string
  zone :: int
  windupFrames :: int
  activeFrames :: int
  recoveryFrames :: int
  damage :: int
  isBlocking :: bool

datatype InputType = block | attack | parry

record InputEvent =
  frame :: int
  type_event :: InputType
  zone_event :: "int option"
  accuracy_event :: "rat option"

text \<open>
  The field \<open>bossCurrentAttack\<close> holds an attack or \<open>null\<close>; indexing the attack list
  out of range would store \<open>undefined\<close> there. The source only tests the field for
  truthiness.
\<close>

datatype AttackRef = Null | Undefined | Active Attack

fun truthy :: "AttackRef \<Rightarrow> bool" where
  "truthy (Active a) = True"
| "truthy Null = False"
| "truthy Undefined = False"

record CombatState =
  currentFrame :: int
  playerAlive :: bool
  playerShieldZone :: int
  playerAttacking :: bool
  playerAttackFrame :: int
  bossHP :: rat
  bossMaxHP :: rat
  bossStagger :: rat
  bossVulnerable :: bool
  bossVulnerableFrame :: int
  bossDesperation :: bool
  bossCurrentAttack :: AttackRef
  bossAttackStartFrame :: int
  bossAttackHitProcessed :: bool
  perfectParries :: int
  blocksPerformed :: int
  damageDealt :: rat
  deathCount :: int
  runStartTime :: int
  mode :: GameMode
  enabledAttacks :: "string set"

definition RUST_WARDEN_ATTACKS :: "Attack list" where
  "RUST_WARDEN_ATTACKS =
    [\<lparr>id_attack = ''bash_left'', zone = ZONE_LEFT, windupFrames = 120, activeFrames = 40,
       recoveryFrames = 30, damage = 1, isBlocking = True\<rparr>,
     \<lparr>id_attack = ''bash_center'', zone = ZONE_CENTER, windupFrames = 100, activeFrames = 40,
       recoveryFrames = 30, damage = 1, isBlocking = True\<rparr>,
     \<lparr>id_attack = ''bash_right'', zone = ZONE_RIGHT, windupFrames = 120, activeFrames = 40,
       recoveryFrames = 30, damage = 1, isBlocking = True\<rparr>,
     \<lparr>id_attack = ''flail_sweep'', zone = ZONE_CENTER, windupFrames = 90, activeFrames = 45,
       recoveryFrames = 60, damage = 1, isBlocking = False\<rparr>,
     \<lparr>id_attack = ''desperation_slam'', zone = ZONE_CENTER, windupFrames = 90, activeFrames = 30,
       recoveryFrames = 120, damage = 1, isBlocking = False\<rparr>]"

text \<open>
  The private fields of the class beside \<open>state\<close>. The seeded generator is the closure
  of \<open>createSeededRandom\<close>; its captured variable is the field \<open>rngState\<close>. The
  callbacks \<open>onBlock\<close> and \<open>onParry\<close> and the console output write no field of the
  engine and are left out.
\<close>

record CombatSystem =
  state :: CombatState
  inputLog :: "InputEvent list"
  runSeed :: rat
  rngState :: rat
  forcedAttackQueue :: "string list"

section \<open>The seeded generator\<close>

definition createSeededRandom :: "rat \<Rightarrow> rat" where
  "createSeededRandom seed = seed"

text \<open>
  \<open>state = (state * 1103515245 + 12345) & 0x7fffffff\<close>: the product and the sum are
  rounded doubles; an infinity converts to 0 under \<open>&\<close>.
\<close>

definition rng_state :: "rat \<Rightarrow> rat" where
  "rng_state st =
     (let p = fl (st * 1103515245) in
      if overflows p then 0
      else (let x = fl (p + 12345) in
        if overflows x then 0 else of_int (ToInt32 x AND 2147483647)))"

text \<open>\<open>return state / 0x7fffffff\<close>\<close>

definition rng_value :: "rat \<Rightarrow> rat" where
  "rng_value st = fl (st / 2147483647)"

text \<open>One call of the generator: the value returned and the new captured state.\<close>

definition rng :: "rat \<Rightarrow> rat \<times> rat" where
  "rng st = (let st' = rng_state st in (rng_value st', st'))"

text \<open>The first \<open>n\<close> values of the stream that starts from state \<open>st\<close>.\<close>

fun rng_stream :: "nat \<Rightarrow> rat \<Rightarrow> rat list" where
  "rng_stream 0 st = []"
| "rng_stream (Suc n) st = fst (rng st) # rng_stream n (snd (rng st))"

section \<open>The engine\<close>

definition CombatSystem_new :: "rat \<Rightarrow> rat \<Rightarrow> GameMode \<Rightarrow> int \<Rightarrow> CombatSystem" where
  "CombatSystem_new seed maxHP md now =
     \<lparr>state = \<lparr>currentFrame = 0, playerAlive = True, playerShieldZone = ZONE_CENTER,
        playerAttacking = False, playerAttackFrame = 0, bossHP = maxHP, bossMaxHP = maxHP,
        bossStagger = 0, bossVulnerable = False, bossVulnerableFrame = 0,
        bossDesperation = False, bossCurrentAttack = Null, bossAttackStartFrame = 0,
        bossAttackHitProcessed = False, perfectParries = 0, blocksPerformed = 0,
        damageDealt = 0, deathCount = 0, runStartTime = now, mode = md,
        enabledAttacks = set (map id_attack RUST_WARDEN_ATTACKS)\<rparr>,
      inputLog = [], runSeed = seed, rngState = createSeededRandom seed,
      forcedAttackQueue = []\<rparr>"

datatype ValidationError = NonPositiveMaxHP

text \<open>
  A call \<open>new CombatSystem(seed, bossMaxHP, mode)\<close> evaluated at clock reading \<open>now\<close>
  (the value of \<open>Date.now()\<close>). The constructor has no \<open>throw\<close>: every call returns
  an instance.
\<close>

definition construct :: "rat \<Rightarrow> rat \<Rightarrow> GameMode \<Rightarrow> int \<Rightarrow> ValidationError + CombatSystem" where
  "construct seed maxHP md now = Inr (CombatSystem_new seed maxHP md now)"

definition getState :: "CombatSystem \<Rightarrow> CombatState" where
  "getState e = state e"

definition getInputLog :: "CombatSystem \<Rightarrow> InputEvent list" where
  "getInputLog e = inputLog e"

definition getRunSeed :: "CombatSystem \<Rightarrow> rat" where
  "getRunSeed e = runSeed e"

text \<open>\<open>bossHP -= damage; damageDealt += damage\<close>, each a rounded double.\<close>

definition dealDamageToBoss :: "rat \<Rightarrow> CombatState \<Rightarrow> CombatState" where
  "dealDamageToBoss dmg s =
     s\<lparr>bossHP := fl (bossHP s - dmg), damageDealt := fl (damageDealt s + dmg)\<rparr>"

definition triggerVulnerability :: "CombatState \<Rightarrow> CombatState" where
  "triggerVulnerability s =
     s\<lparr>bossVulnerable := True, bossVulnerableFrame := currentFrame s, bossStagger := 0,
       bossCurrentAttack := Null\<rparr>"

definition handleParry :: "rat \<Rightarrow> CombatState \<Rightarrow> CombatState" where
  "handleParry acc s =
     (let s1 = s\<lparr>perfectParries := perfectParries s + 1\<rparr>;
          multiplier = (if fl (9 / 10) < acc then 3 / 2 else 1);
          s2 = s1\<lparr>bossStagger := fl (bossStagger s1 + fl (PARRY_STAGGER * multiplier))\<rparr>;
          s3 = (if STAGGER_MAX \<le> bossStagger s2 then triggerVulnerability s2 else s2)
      in if bossDesperation s3 then dealDamageToBoss CRITICAL_DAMAGE s3 else s3)"

definition handleBlock :: "CombatState \<Rightarrow> CombatState" where
  "handleBlock s =
     (let s1 = s\<lparr>blocksPerformed := blocksPerformed s + 1\<rparr>;
          s2 = s1\<lparr>bossStagger := fl (bossStagger s1 + BLOCK_STAGGER)\<rparr>
      in if STAGGER_MAX \<le> bossStagger s2 then triggerVulnerability s2 else s2)"

definition handlePlayerDeath :: "CombatState \<Rightarrow> CombatState" where
  "handlePlayerDeath s =
     (let s1 = s\<lparr>deathCount := deathCount s + 1\<rparr>
      in if mode s1 = PRACTICE then s1 else s1\<lparr>playerAlive := False\<rparr>)"

definition executeAttack :: "AttackRef \<Rightarrow> CombatState \<Rightarrow> CombatState" where
  "executeAttack a s =
     s\<lparr>bossCurrentAttack := a, bossAttackStartFrame := currentFrame s,
       bossAttackHitProcessed := False\<rparr>"

definition processAttackCollision :: "CombatState \<Rightarrow> CombatState" where
  "processAttackCollision s =
     (case bossCurrentAttack s of
        Active a \<Rightarrow>
          (let framesSinceStart = currentFrame s - bossAttackStartFrame s;
               totalFrames = windupFrames a + activeFrames a + recoveryFrames a;
               s1 = (if \<not> bossAttackHitProcessed s
                       \<and> framesSinceStart - windupFrames a = IMPACT_DELAY_FRAMES
                     then (if playerShieldZone s = zone a \<and> isBlocking a
                           then handleBlock s else handlePlayerDeath s)
                          \<lparr>bossAttackHitProcessed := True\<rparr>
                     else s)
           in if totalFrames \<le> framesSinceStart then s1\<lparr>bossCurrentAttack := Null\<rparr> else s1)
      | _ \<Rightarrow> s)"

definition processPlayerAttack :: "CombatState \<Rightarrow> CombatState" where
  "processPlayerAttack s =
     (if \<not> playerAttacking s then s
      else (let framesSinceAttack = currentFrame s - playerAttackFrame s;
                s1 = (if framesSinceAttack = 10 \<and> bossVulnerable s
                      then dealDamageToBoss SAFE_ATTACK_DAMAGE s else s)
            in if 20 \<le> framesSinceAttack then s1\<lparr>playerAttacking := False\<rparr> else s1))"

definition processVulnerability :: "CombatState \<Rightarrow> CombatState" where
  "processVulnerability s =
     (if \<not> bossVulnerable s then s
      else if VULNERABILITY_DURATION_FRAMES \<le> currentFrame s - bossVulnerableFrame s
           then s\<lparr>bossVulnerable := False, bossDesperation := False\<rparr>
           else s)"

text \<open>The stagger decay of \<open>tick\<close>.\<close>

definition staggerDecay :: "CombatState \<Rightarrow> CombatState" where
  "staggerDecay s =
     (if \<not> bossVulnerable s
      then s\<lparr>bossStagger :=
             max 0 (fl (bossStagger s - fl (STAGGER_DECAY_PER_SECOND / TICKS_PER_SECOND)))\<rparr>
      else s)"

definition startBossAttack :: "CombatSystem \<Rightarrow> CombatSystem" where
  "startBossAttack e =
     (let availableAttacks =
            filter (\<lambda>a. mode (state e) = STANDARD \<or> id_attack a \<in> enabledAttacks (state e))
              RUST_WARDEN_ATTACKS
      in if length availableAttacks = 0 then e
         else (let (r, st') = rng (rngState e);
                   attackIndex = \<lfloor>fl (r * of_nat (length availableAttacks))\<rfloor>;
                   chosen = (if 0 \<le> attackIndex \<and> attackIndex < int (length availableAttacks)
                             then Active (availableAttacks ! nat attackIndex) else Undefined)
               in e\<lparr>rngState := st', state := executeAttack chosen (state e)\<rparr>))"

text \<open>The random branch of \<open>processBossAI\<close>, with \<open>attackChance = 0.015\<close>.\<close>

definition randomAttack :: "CombatSystem \<Rightarrow> CombatSystem" where
  "randomAttack e =
     (let (r, st') = rng (rngState e); e1 = e\<lparr>rngState := st'\<rparr>
      in if r < fl (15 / 1000) then startBossAttack e1 else e1)"

definition processBossAI :: "CombatSystem \<Rightarrow> CombatSystem" where
  "processBossAI e =
     (if truthy (bossCurrentAttack (state e)) \<or> bossVulnerable (state e) then e
      else (case forcedAttackQueue e of
              [] \<Rightarrow> randomAttack e
            | forcedId # rest \<Rightarrow>
                (let e1 = e\<lparr>forcedAttackQueue := rest\<rparr>
                 in case find (\<lambda>a. id_attack a = forcedId) RUST_WARDEN_ATTACKS of
                      Some a \<Rightarrow> e1\<lparr>state := executeAttack (Active a) (state e1)\<rparr>
                    | None \<Rightarrow> randomAttack e1)))"

definition tick :: "CombatSystem \<Rightarrow> CombatSystem" where
  "tick e =
     (if \<not> playerAlive (state e) then e
      else (let e1 = e\<lparr>state := (state e)\<lparr>currentFrame := currentFrame (state e) + 1\<rparr>\<rparr>;
                e2 = processBossAI e1
            in e2\<lparr>state := processVulnerability (staggerDecay (processPlayerAttack
                      (processAttackCollision (state e2))))\<rparr>))"

definition setPracticeAttack :: "string \<Rightarrow> bool \<Rightarrow> CombatSystem \<Rightarrow> CombatSystem" where
  "setPracticeAttack attackId enabled e =
     (if mode (state e) \<noteq> PRACTICE then e
      else if enabled
           then e\<lparr>state := (state e)\<lparr>enabledAttacks := insert attackId (enabledAttacks (state e))\<rparr>\<rparr>
           else e\<lparr>state := (state e)\<lparr>enabledAttacks := enabledAttacks (state e) - {attackId}\<rparr>\<rparr>)"

definition forceAttack :: "string \<Rightarrow> CombatSystem \<Rightarrow> CombatSystem" where
  "forceAttack attackId e =
     (if mode (state e) \<noteq> PRACTICE then e
      else e\<lparr>forcedAttackQueue := forcedAttackQueue e @ [attackId]\<rparr>)"

definition moveShield :: "int \<Rightarrow> CombatSystem \<Rightarrow> CombatSystem" where
  "moveShield z e =
     (if \<not> playerAlive (state e) then e
      else e\<lparr>state := (state e)\<lparr>playerShieldZone := z\<rparr>,
             inputLog := inputLog e @
               [\<lparr>frame = currentFrame (state e), type_event = block, zone_event = Some z,
                 accuracy_event = None\<rparr>]\<rparr>)"

text \<open>\<open>attemptParry\<close> returns its boolean together with the engine after the call.\<close>

definition attemptParry :: "int \<Rightarrow> rat \<Rightarrow> CombatSystem \<Rightarrow> bool \<times> CombatSystem" where
  "attemptParry z acc e =
     (if \<not> playerAlive (state e) then (False, e)
      else (let e1 = e\<lparr>inputLog := inputLog e @
                      [\<lparr>frame = currentFrame (state e), type_event = parry, zone_event = Some z,
                        accuracy_event = Some acc\<rparr>]\<rparr>
            in case bossCurrentAttack (state e1) of
                 Active a \<Rightarrow>
                   (if bossAttackHitProcessed (state e1) then (False, e1)
                    else (let framesSinceStart =
                                currentFrame (state e1) - bossAttackStartFrame (state e1);
                              earlyWindow = 45
                          in if windupFrames a - earlyWindow \<le> framesSinceStart
                                \<and> framesSinceStart < windupFrames a + activeFrames a
                                \<and> z = zone a
                             then (True, e1\<lparr>state := (handleParry acc (state e1))
                                              \<lparr>bossAttackHitProcessed := True\<rparr>\<rparr>)
                             else (False, e1)))
               | _ \<Rightarrow> (False, e1)))"

definition playerAttack :: "CombatSystem \<Rightarrow> CombatSystem" where
  "playerAttack e =
     (if \<not> playerAlive (state e) \<or> playerAttacking (state e) then e
      else if \<not> bossVulnerable (state e) then e
      else e\<lparr>state := (state e)\<lparr>playerAttacking := True,
                                playerAttackFrame := currentFrame (state e)\<rparr>,
             inputLog := inputLog e @
               [\<lparr>frame = currentFrame (state e), type_event = attack, zone_event = None,
                 accuracy_event = None\<rparr>]\<rparr>)"

definition isBossDefeated :: "CombatSystem \<Rightarrow> bool" where
  "isBossDefeated e = (bossHP (state e) \<le> 0)"

definition isRunOver :: "CombatSystem \<Rightarrow> bool" where
  "isRunOver e =
     (if mode (state e) = PRACTICE then isBossDefeated e
      else \<not> playerAlive (state e) \<or> isBossDefeated e)"

section \<open>Runs of the engine\<close>

datatype Command =
    Tick
  | MoveShield int
  | AttemptParry int rat
  | PlayerAttack
  | SetPracticeAttack string bool
  | ForceAttack string

fun exec :: "Command \<Rightarrow> CombatSystem \<Rightarrow> CombatSystem" where
  "exec Tick e = tick e"
| "exec (MoveShield z) e = moveShield z e"
| "exec (AttemptParry z acc) e = snd (attemptParry z acc e)"
| "exec PlayerAttack e = playerAttack e"
| "exec (SetPracticeAttack a b) e = setPracticeAttack a b e"
| "exec (ForceAttack a) e = forceAttack a e"

fun run :: "Command list \<Rightarrow> CombatSystem \<Rightarrow> CombatSystem" where
  "run [] e = e"
| "run (c # cs) e = run cs (exec c e)"

text \<open>The snapshots that \<open>getState\<close> returns after every step of a run.\<close>

fun snapshots :: "Command list \<Rightarrow> CombatSystem \<Rightarrow> CombatState list" where
  "snapshots [] e = []"
| "snapshots (c # cs) e = getState (exec c e) # snapshots cs (exec c e)"

fun ticks :: "nat \<Rightarrow> CombatSystem \<Rightarrow> CombatSystem" where
  "ticks 0 e = e"
| "ticks (Suc n) e = ticks n (tick e)"

section \<open>Invariants, views and example runs\<close>

text \<open>A vulnerable boss has no attack in flight.\<close>

definition vuln_inv :: "CombatState \<Rightarrow> bool" where
  "vuln_inv s = (bossVulnerable s \<longrightarrow> bossCurrentAttack s = Null)"

definition flail_sweep :: Attack where
  "flail_sweep = RUST_WARDEN_ATTACKS ! 3"

definition bash_center :: Attack where
  "bash_center = RUST_WARDEN_ATTACKS ! 1"

text \<open>The fields that the resolution of an impact reads and writes.\<close>

definition impact_view ::
  "CombatState \<Rightarrow> bool \<times> AttackRef \<times> int \<times> bool \<times> int \<times> int \<times> int \<times> GameMode" where
  "impact_view s = (playerAlive s, bossCurrentAttack s, bossAttackStartFrame s,
     bossAttackHitProcessed s, blocksPerformed s, deathCount s, playerShieldZone s, mode s)"

text \<open>
  With \<open>r\<close> ticks to go, no impact can be resolved: the player is dead, or the attack in
  flight has its hit processed and lasts for the \<open>r\<close> ticks, or the boss stays vulnerable
  for them.
\<close>

definition settled :: "nat \<Rightarrow> CombatState \<Rightarrow> bool" where
  "settled r s = (r = 0 \<or> \<not> playerAlive s
     \<or> (case bossCurrentAttack s of
           Active a \<Rightarrow> bossAttackHitProcessed s
             \<and> currentFrame s - bossAttackStartFrame s + int r
                 \<le> windupFrames a + activeFrames a + recoveryFrames a
         | _ \<Rightarrow> bossVulnerable s
             \<and> currentFrame s - bossVulnerableFrame s + int r < VULNERABILITY_DURATION_FRAMES))"

text \<open>
  Seed 0 in standard mode: the first tick starts \<open>flail_sweep\<close>, which cannot be blocked,
  and the player dies at tick 116.
\<close>

definition fallen_engine :: CombatSystem where
  "fallen_engine = tick (ticks 114 (tick (CombatSystem_new 0 10 STANDARD 0)))"

text \<open>Seed 109 in standard mode: the first tick starts \<open>bash_center\<close>.\<close>

definition standard_center :: CombatSystem where
  "standard_center = tick (CombatSystem_new 109 10 STANDARD 0)"

text \<open>Practice mode: a forced \<open>bash_center\<close> starts at the first tick.\<close>

definition practice_center :: CombatSystem where
  "practice_center = tick (forceAttack ''bash_center'' (CombatSystem_new 0 10 PRACTICE 0))"

text \<open>The engine value \<open>e\<close> with its frame counter set to \<open>n\<close>.\<close>

definition at_frame :: "int \<Rightarrow> CombatSystem \<Rightarrow> CombatSystem" where
  "at_frame n e = e\<lparr>state := (state e)\<lparr>currentFrame := n\<rparr>\<rparr>"

text \<open>The engine \<open>e\<close> as it would be had it been constructed at clock reading \<open>t\<close>.\<close>

definition retime :: "int \<Rightarrow> CombatSystem \<Rightarrow> CombatSystem" where
  "retime t e = e\<lparr>state := (state e)\<lparr>runStartTime := t\<rparr>\<rparr>"

text \<open>The stagger meter stays in its range.\<close>

definition stagger_inv :: "CombatState \<Rightarrow> bool" where
  "stagger_inv s = (0 \<le> bossStagger s \<and> bossStagger s \<le> STAGGER_MAX)"

text \<open>
  A calm engine in practice mode: the player is alive and not striking, the boss is neither
  vulnerable nor desperate, no forced attack is queued, the attack slot holds \<open>A\<close>, started
  \<open>el\<close> frames ago with hit flag \<open>h\<close>, and the stagger lies between \<open>lo\<close> and \<open>hi\<close>.
\<close>

definition calm :: "AttackRef \<Rightarrow> int \<Rightarrow> bool \<Rightarrow> rat \<Rightarrow> rat \<Rightarrow> CombatSystem \<Rightarrow> bool" where
  "calm A el h lo hi e =
     (mode (state e) = PRACTICE \<and> playerAlive (state e) \<and> \<not> playerAttacking (state e)
      \<and> \<not> bossVulnerable (state e) \<and> \<not> bossDesperation (state e)
      \<and> forcedAttackQueue e = [] \<and> bossCurrentAttack (state e) = A
      \<and> currentFrame (state e) - bossAttackStartFrame (state e) = el
      \<and> bossAttackHitProcessed (state e) = h
      \<and> 0 \<le> bossStagger (state e) \<and> lo \<le> bossStagger (state e)
      \<and> bossStagger (state e) \<le> hi \<and> hi \<le> 100)"

text \<open>
  A round of practice: force \<open>bash_center\<close>, tick 56 times (55 frames into the attack),
  parry it with full accuracy; \<open>parry_round\<close> then ticks to the end of the attack.
\<close>

definition parry_opening :: "Command list" where
  "parry_opening = ForceAttack ''bash_center'' # replicate 56 Tick @ [AttemptParry ZONE_CENTER 1]"

definition parry_round :: "Command list" where
  "parry_round = parry_opening @ replicate 115 Tick"

text \<open>Three perfect parries in a row fill the stagger meter.\<close>

definition stagger_cmds :: "Command list" where
  "stagger_cmds = parry_round @ parry_round @ parry_opening"

text \<open>The stagger after the decay of one tick.\<close>

definition decayed :: "rat \<Rightarrow> rat" where
  "decayed x = max 0 (fl (x - fl (STAGGER_DECAY_PER_SECOND / TICKS_PER_SECOND)))"

text \<open>
  An attack in flight comes from the catalog, and while its hit is unprocessed fewer than
  \<open>windupFrames + IMPACT_DELAY_FRAMES + slack\<close> frames have elapsed (slack 0 between
  calls, 1 inside \<open>tick\<close> before the collision step).
\<close>

definition flight_inv :: "int \<Rightarrow> CombatState \<Rightarrow> bool" where
  "flight_inv slack s = (case bossCurrentAttack s of
       Active a \<Rightarrow> a \<in> set RUST_WARDEN_ATTACKS
         \<and> (\<not> bossAttackHitProcessed s \<longrightarrow>
              currentFrame s - bossAttackStartFrame s
                < windupFrames a + IMPACT_DELAY_FRAMES + slack)
     | _ \<Rightarrow> True)"

text \<open>
  Damage accounting for an integer max-HP \<open>m\<close> after at most \<open>k\<close> hits: the boss is not
  desperate, \<open>damageDealt\<close> is an integer between 0 and \<open>k\<close>, and what the boss has lost is
  what has been dealt.
\<close>

definition hp_inv :: "int \<Rightarrow> int \<Rightarrow> CombatState \<Rightarrow> bool" where
  "hp_inv m k s = (\<not> bossDesperation s \<and> bossMaxHP s = of_int m
     \<and> damageDealt s = of_int \<lfloor>damageDealt s\<rfloor> \<and> 0 \<le> damageDealt s
     \<and> damageDealt s \<le> of_int k \<and> bossHP s + damageDealt s = of_int m)"

text \<open>
  No strike of the player is under way, the boss is not desperate, its hit points are \<open>h\<close>
  and the damage dealt is \<open>d\<close>.
\<close>

definition unhurt :: "rat \<Rightarrow> rat \<Rightarrow> CombatState \<Rightarrow> bool" where
  "unhurt h d s = (\<not> playerAttacking s \<and> \<not> bossDesperation s \<and> bossHP s = h
     \<and> damageDealt s = d)"

text \<open>The player is alive and the boss has been vulnerable for \<open>v\<close> frames.\<close>

definition opened :: "int \<Rightarrow> CombatState \<Rightarrow> bool" where
  "opened v s = (playerAlive s \<and> bossVulnerable s \<and> bossCurrentAttack s = Null
     \<and> currentFrame s - bossVulnerableFrame s = v)"

text \<open>A strike of the player began \<open>k\<close> frames ago on a boss vulnerable for \<open>v\<close> frames.\<close>

definition striking :: "int \<Rightarrow> int \<Rightarrow> rat \<Rightarrow> rat \<Rightarrow> CombatState \<Rightarrow> bool" where
  "striking k v h d s = (opened v s \<and> playerAttacking s
     \<and> currentFrame s - playerAttackFrame s = k \<and> bossHP s = h \<and> damageDealt s = d)"

text \<open>
  Make the boss vulnerable by three perfect parries, strike, and tick 10 times: the tenth
  tick lands the hit.
\<close>

definition strike_cmds :: "Command list" where
  "strike_cmds = stagger_cmds @ PlayerAttack # replicate 10 Tick"

section \<open>Properties of single steps\<close>

lemmas state_defs = dealDamageToBoss_def triggerVulnerability_def handleParry_def handleBlock_def
  handlePlayerDeath_def executeAttack_def processAttackCollision_def processPlayerAttack_def
  processVulnerability_def staggerDecay_def

lemma currentFrame_state_steps [simp]:
  "currentFrame (dealDamageToBoss d s) = currentFrame s"
  "currentFrame (triggerVulnerability s) = currentFrame s"
  "currentFrame (handleParry acc s) = currentFrame s"
  "currentFrame (handleBlock s) = currentFrame s"
  "currentFrame (handlePlayerDeath s) = currentFrame s"
  "currentFrame (executeAttack a s) = currentFrame s"
  "currentFrame (processAttackCollision s) = currentFrame s"
  "currentFrame (processPlayerAttack s) = currentFrame s"
  "currentFrame (processVulnerability s) = currentFrame s"
  "currentFrame (staggerDecay s) = currentFrame s"
  by (simp_all add: state_defs Let_def split: AttackRef.splits)

lemma currentFrame_startBossAttack [simp]:
  "currentFrame (state (startBossAttack e)) = currentFrame (state e)"
  by (simp add: startBossAttack_def Let_def split: prod.splits)

lemma currentFrame_randomAttack [simp]:
  "currentFrame (state (randomAttack e)) = currentFrame (state e)"
  by (simp add: randomAttack_def Let_def split: prod.splits)

lemma currentFrame_processBossAI [simp]:
  "currentFrame (state (processBossAI e)) = currentFrame (state e)"
  by (simp add: processBossAI_def Let_def split: list.splits option.splits)


section \<open>Vulnerability excludes an attack\<close>

lemma vuln_inv_state_steps:
  "vuln_inv (triggerVulnerability s)"
  "vuln_inv s \<Longrightarrow> vuln_inv (dealDamageToBoss d s)"
  "vuln_inv s \<Longrightarrow> vuln_inv (handleParry acc s)"
  "vuln_inv s \<Longrightarrow> vuln_inv (handleBlock s)"
  "vuln_inv s \<Longrightarrow> vuln_inv (handlePlayerDeath s)"
  "vuln_inv s \<Longrightarrow> vuln_inv (processAttackCollision s)"
  "vuln_inv s \<Longrightarrow> vuln_inv (processPlayerAttack s)"
  "vuln_inv s \<Longrightarrow> vuln_inv (processVulnerability s)"
  "vuln_inv s \<Longrightarrow> vuln_inv (staggerDecay s)"
  by (auto simp add: vuln_inv_def state_defs Let_def split: AttackRef.splits)

lemma vuln_inv_processBossAI:
  "vuln_inv (state e) \<Longrightarrow> vuln_inv (state (processBossAI e))"
  by (auto simp add: processBossAI_def randomAttack_def startBossAttack_def Let_def
      vuln_inv_def executeAttack_def split: list.splits option.splits prod.splits)

lemma vuln_inv_tick: "vuln_inv (state e) \<Longrightarrow> vuln_inv (state (tick e))"
proof -
  assume a: "vuln_inv (state e)"
  have "vuln_inv ((state e)\<lparr>currentFrame := currentFrame (state e) + 1\<rparr>)"
    using a by (simp add: vuln_inv_def)
  then have "vuln_inv (state (processBossAI
      (e\<lparr>state := (state e)\<lparr>currentFrame := currentFrame (state e) + 1\<rparr>\<rparr>)))"
    by (intro vuln_inv_processBossAI) simp
  then show ?thesis
    using a by (simp add: tick_def Let_def vuln_inv_state_steps)
qed

lemma vuln_inv_exec: "vuln_inv (state e) \<Longrightarrow> vuln_inv (state (exec c e))"
proof (cases c)
  case Tick
  assume "vuln_inv (state e)"
  then show ?thesis using Tick by (simp add: vuln_inv_tick)
next
  case (AttemptParry z acc)
  assume a: "vuln_inv (state e)"
  have "vuln_inv ((handleParry acc (state e))\<lparr>bossAttackHitProcessed := True\<rparr>)"
    using vuln_inv_state_steps(3) [OF a, of acc] by (simp add: vuln_inv_def)
  then show ?thesis
    using a AttemptParry by (simp add: attemptParry_def Let_def split: AttackRef.splits)
qed (simp_all add: vuln_inv_def moveShield_def playerAttack_def setPracticeAttack_def
      forceAttack_def)

lemma vuln_inv_run: "vuln_inv (state e) \<Longrightarrow> vuln_inv (state (run cs e))"
  by (induction cs arbitrary: e) (simp_all add: vuln_inv_exec)

text \<open>
  Claim C3. In every state reached from construction by ticks and commands, if
  \<open>bossVulnerable\<close> is true then \<open>bossCurrentAttack\<close> is \<open>null\<close>.
\<close>

theorem vulnerable_no_attack:
  "bossVulnerable (getState (run cs (CombatSystem_new seed maxHP md now)))
   \<longrightarrow> bossCurrentAttack (getState (run cs (CombatSystem_new seed maxHP md now))) = Null"
proof -
  have "vuln_inv (state (CombatSystem_new seed maxHP md now))"
    by (simp add: vuln_inv_def CombatSystem_new_def)
  then have "vuln_inv (state (run cs (CombatSystem_new seed maxHP md now)))"
    by (rule vuln_inv_run)
  then show ?thesis by (simp add: vuln_inv_def getState_def)
qed

section \<open>Quiet ticks and the first tick of a run\<close>

lemma decay_of_zero:
  "max 0 (fl (0 - fl (STAGGER_DECAY_PER_SECOND / TICKS_PER_SECOND))) = 0"
  by code_simp

lemma staggerDecay_zero: "bossStagger s = 0 \<Longrightarrow> staggerDecay s = s"
  using decay_of_zero by (simp add: staggerDecay_def)

lemma rng_seed_0:
  "rng_state 0 = 12345"
  "rng_value 12345 < fl (3 / 200)"
  "rng_state 12345 = 1406932606"
  "\<lfloor>fl (rng_value 1406932606 * 5)\<rfloor> = 3"
  "0 \<le> fl (rng_value 1406932606 * 5)"
  "fl (rng_value 1406932606 * 5) < 5"
  by code_simp+

lemma rng_seed_109:
  "rng_state 109 = 24089762"
  "rng_value 24089762 < fl (3 / 200)"
  "rng_state 24089762 = 857199920"
  "\<lfloor>fl (rng_value 857199920 * 5)\<rfloor> = 1"
  "0 \<le> fl (rng_value 857199920 * 5)"
  "fl (rng_value 857199920 * 5) < 5"
  by code_simp+

lemma catalog_length: "length RUST_WARDEN_ATTACKS = 5" "RUST_WARDEN_ATTACKS \<noteq> []"
  by (simp_all add: RUST_WARDEN_ATTACKS_def)

lemma tick_quiet:
  assumes "playerAlive (state e)" "bossCurrentAttack (state e) = Active a"
    "\<not> playerAttacking (state e)" "\<not> bossVulnerable (state e)" "bossStagger (state e) = 0"
    "bossAttackHitProcessed (state e)
      \<or> currentFrame (state e) + 1 - bossAttackStartFrame (state e) - windupFrames a
          \<noteq> IMPACT_DELAY_FRAMES"
    "currentFrame (state e) + 1 - bossAttackStartFrame (state e)
      < windupFrames a + activeFrames a + recoveryFrames a"
  shows "tick e = e\<lparr>state := (state e)\<lparr>currentFrame := currentFrame (state e) + 1\<rparr>\<rparr>"
proof -
  let ?s1 = "(state e)\<lparr>currentFrame := currentFrame (state e) + 1\<rparr>"
  let ?e1 = "e\<lparr>state := ?s1\<rparr>"
  have b: "processBossAI ?e1 = ?e1"
    using assms(2) by (simp add: processBossAI_def)
  have c: "processAttackCollision ?s1 = ?s1"
    using assms(2,6,7) by (auto simp add: processAttackCollision_def Let_def)
  have p: "processPlayerAttack ?s1 = ?s1"
    using assms(3) by (simp add: processPlayerAttack_def)
  have d: "staggerDecay ?s1 = ?s1"
    using assms(5) by (simp add: staggerDecay_zero)
  have v: "processVulnerability ?s1 = ?s1"
    using assms(4) by (simp add: processVulnerability_def)
  show ?thesis
    using assms(1) by (simp add: tick_def Let_def b c p d v)
qed

lemma ticks_quiet:
  assumes "playerAlive (state e)" "bossCurrentAttack (state e) = Active a"
    "\<not> playerAttacking (state e)" "\<not> bossVulnerable (state e)" "bossStagger (state e) = 0"
    "bossAttackHitProcessed (state e)
      \<or> currentFrame (state e) + int n - bossAttackStartFrame (state e) - windupFrames a
          < IMPACT_DELAY_FRAMES"
    "currentFrame (state e) + int n - bossAttackStartFrame (state e)
      < windupFrames a + activeFrames a + recoveryFrames a"
  shows "ticks n e = e\<lparr>state := (state e)\<lparr>currentFrame := currentFrame (state e) + int n\<rparr>\<rparr>"
  using assms
proof (induction n arbitrary: e)
  case 0
  then show ?case by simp
next
  case (Suc n)
  have t: "tick e = e\<lparr>state := (state e)\<lparr>currentFrame := currentFrame (state e) + 1\<rparr>\<rparr>"
    using Suc.prems by (intro tick_quiet [where a = a]) auto
  have "ticks n (tick e) = (tick e)\<lparr>state := (state (tick e))
          \<lparr>currentFrame := currentFrame (state (tick e)) + int n\<rparr>\<rparr>"
    using Suc.prems by (intro Suc.IH) (auto simp add: t)
  then show ?case by (simp add: t add.assoc)
qed

lemma startBossAttack_seed_0:
  assumes "rngState e = 12345" "mode (state e) = STANDARD"
  shows "startBossAttack e =
     e\<lparr>rngState := 1406932606, state := executeAttack (Active flail_sweep) (state e)\<rparr>"
  using assms
  by (simp add: startBossAttack_def rng_def rng_seed_0 Let_def catalog_length flail_sweep_def)

lemma randomAttack_seed_0:
  assumes "rngState e = 0" "mode (state e) = STANDARD"
  shows "randomAttack e =
     e\<lparr>rngState := 1406932606, state := executeAttack (Active flail_sweep) (state e)\<rparr>"
  using assms
  by (simp add: randomAttack_def rng_def rng_seed_0 Let_def startBossAttack_seed_0)

lemma tick_seed_0:
  "tick (CombatSystem_new 0 maxHP STANDARD now) =
     (CombatSystem_new 0 maxHP STANDARD now)
       \<lparr>rngState := 1406932606,
        state := (state (CombatSystem_new 0 maxHP STANDARD now))
          \<lparr>currentFrame := 1, bossCurrentAttack := Active flail_sweep,
           bossAttackStartFrame := 1\<rparr>\<rparr>"
proof -
  let ?e = "CombatSystem_new 0 maxHP STANDARD now"
  let ?e1 = "?e\<lparr>state := (state ?e)\<lparr>currentFrame := currentFrame (state ?e) + 1\<rparr>\<rparr>"
  let ?s2 = "(state ?e)\<lparr>currentFrame := 1, bossCurrentAttack := Active flail_sweep,
           bossAttackStartFrame := 1\<rparr>"
  have r: "randomAttack ?e1 =
      ?e1\<lparr>rngState := 1406932606, state := executeAttack (Active flail_sweep) (state ?e1)\<rparr>"
    by (rule randomAttack_seed_0) (simp_all add: CombatSystem_new_def createSeededRandom_def)
  have b: "processBossAI ?e1 =
      ?e1\<lparr>rngState := 1406932606, state := executeAttack (Active flail_sweep) (state ?e1)\<rparr>"
    unfolding processBossAI_def r [symmetric] by (simp add: CombatSystem_new_def)
  have x: "executeAttack (Active flail_sweep) (state ?e1) = ?s2"
    by (simp add: executeAttack_def CombatSystem_new_def)
  have c: "processAttackCollision ?s2 = ?s2"
    by (simp add: processAttackCollision_def Let_def flail_sweep_def RUST_WARDEN_ATTACKS_def
        IMPACT_DELAY_FRAMES_def CombatSystem_new_def)
  have p: "processPlayerAttack ?s2 = ?s2"
    by (simp add: processPlayerAttack_def CombatSystem_new_def)
  have d: "staggerDecay ?s2 = ?s2"
    by (rule staggerDecay_zero) (simp add: CombatSystem_new_def)
  have v: "processVulnerability ?s2 = ?s2"
    by (simp add: processVulnerability_def CombatSystem_new_def)
  have "tick ?e = ?e\<lparr>rngState := 1406932606, state := ?s2\<rparr>"
    unfolding tick_def Let_def b x by (simp add: c p d v) (simp add: CombatSystem_new_def)
  then show ?thesis by simp
qed

section \<open>Resolution of an impact\<close>

lemma impact_view_rest:
  "impact_view (processPlayerAttack s) = impact_view s"
  "impact_view (staggerDecay s) = impact_view s"
  "impact_view (processVulnerability s) = impact_view s"
  by (simp_all add: impact_view_def state_defs Let_def)

lemma tick_view:
  assumes "playerAlive (state e)" "truthy (bossCurrentAttack (state e)) \<or> bossVulnerable (state e)"
  shows "impact_view (state (tick e)) =
     impact_view (processAttackCollision ((state e)\<lparr>currentFrame := currentFrame (state e) + 1\<rparr>))"
    and "currentFrame (state (tick e)) = currentFrame (state e) + 1"
  using assms
  by (simp_all add: tick_def Let_def processBossAI_def impact_view_rest)

lemma tick_before_impact:
  assumes "playerAlive (state e)" "bossCurrentAttack (state e) = Active a"
    "\<not> bossAttackHitProcessed (state e)"
    "currentFrame (state e) + 1 - bossAttackStartFrame (state e)
       < windupFrames a + IMPACT_DELAY_FRAMES"
    "IMPACT_DELAY_FRAMES \<le> activeFrames a + recoveryFrames a"
  shows "impact_view (state (tick e)) = impact_view (state e)"
proof -
  have "impact_view (state (tick e)) =
     impact_view (processAttackCollision ((state e)\<lparr>currentFrame := currentFrame (state e) + 1\<rparr>))"
    using assms(1,2) by (intro tick_view) simp_all
  also have "\<dots> = impact_view (state e)"
    using assms by (simp add: processAttackCollision_def Let_def impact_view_def)
  finally show ?thesis .
qed

lemma ticks_before_impact:
  assumes "playerAlive (state e)" "bossCurrentAttack (state e) = Active a"
    "\<not> bossAttackHitProcessed (state e)"
    "currentFrame (state e) + int k - bossAttackStartFrame (state e)
       < windupFrames a + IMPACT_DELAY_FRAMES"
    "IMPACT_DELAY_FRAMES \<le> activeFrames a + recoveryFrames a"
  shows "impact_view (state (ticks k e)) = impact_view (state e)
     \<and> currentFrame (state (ticks k e)) = currentFrame (state e) + int k"
  using assms
proof (induction k arbitrary: e)
  case 0
  then show ?case by simp
next
  case (Suc k)
  have v: "impact_view (state (tick e)) = impact_view (state e)"
    using Suc.prems by (intro tick_before_impact [where a = a]) simp_all
  have f: "currentFrame (state (tick e)) = currentFrame (state e) + 1"
    using Suc.prems(1,2) by (intro tick_view) simp_all
  have "impact_view (state (ticks k (tick e))) = impact_view (state (tick e))
     \<and> currentFrame (state (ticks k (tick e))) = currentFrame (state (tick e)) + int k"
    using Suc.prems v f by (intro Suc.IH) (simp_all add: impact_view_def)
  then show ?case by (simp add: v f)
qed

lemma counters_rest:
  "blocksPerformed (processPlayerAttack s) = blocksPerformed s"
  "blocksPerformed (staggerDecay s) = blocksPerformed s"
  "blocksPerformed (processVulnerability s) = blocksPerformed s"
  "deathCount (processPlayerAttack s) = deathCount s"
  "deathCount (staggerDecay s) = deathCount s"
  "deathCount (processVulnerability s) = deathCount s"
  "playerAlive (processPlayerAttack s) = playerAlive s"
  "playerAlive (staggerDecay s) = playerAlive s"
  "playerAlive (processVulnerability s) = playerAlive s"
  by (simp_all add: state_defs Let_def)

lemma settled_rest:
  "settled r (processPlayerAttack s) = settled r s"
  "settled r (staggerDecay s) = settled r s"
  by (simp_all add: settled_def state_defs Let_def split: AttackRef.splits)

lemma settled_processVulnerability:
  "settled r s \<Longrightarrow> settled r (processVulnerability s)"
  by (auto simp add: settled_def processVulnerability_def split: AttackRef.splits)

lemma tick_at_impact:
  assumes "playerAlive (state e)" "bossCurrentAttack (state e) = Active a"
    "\<not> bossAttackHitProcessed (state e)"
    "currentFrame (state e) + 1 - bossAttackStartFrame (state e)
       = windupFrames a + IMPACT_DELAY_FRAMES"
  shows "playerShieldZone (state e) = zone a \<and> isBlocking a \<Longrightarrow>
           blocksPerformed (state (tick e)) = blocksPerformed (state e) + 1
           \<and> deathCount (state (tick e)) = deathCount (state e)
           \<and> playerAlive (state (tick e))"
    and "\<not> (playerShieldZone (state e) = zone a \<and> isBlocking a) \<Longrightarrow>
           blocksPerformed (state (tick e)) = blocksPerformed (state e)
           \<and> deathCount (state (tick e)) = deathCount (state e) + 1
           \<and> playerAlive (state (tick e)) = (mode (state e) = PRACTICE)"
proof -
  have v: "impact_view (state (tick e)) =
     impact_view (processAttackCollision ((state e)\<lparr>currentFrame := currentFrame (state e) + 1\<rparr>))"
    using assms(1,2) by (intro tick_view) simp_all
  show "playerShieldZone (state e) = zone a \<and> isBlocking a \<Longrightarrow>
           blocksPerformed (state (tick e)) = blocksPerformed (state e) + 1
           \<and> deathCount (state (tick e)) = deathCount (state e)
           \<and> playerAlive (state (tick e))"
    using v assms
    by (simp add: impact_view_def processAttackCollision_def Let_def handleBlock_def
        triggerVulnerability_def)
  show "\<not> (playerShieldZone (state e) = zone a \<and> isBlocking a) \<Longrightarrow>
           blocksPerformed (state (tick e)) = blocksPerformed (state e)
           \<and> deathCount (state (tick e)) = deathCount (state e) + 1
           \<and> playerAlive (state (tick e)) = (mode (state e) = PRACTICE)"
    using v assms
    by (auto simp add: impact_view_def processAttackCollision_def Let_def handlePlayerDeath_def)
qed

lemma settled_after_collision:
  assumes "playerAlive s" "settled (Suc r) (s\<lparr>currentFrame := currentFrame s - 1\<rparr>)"
  shows "settled r (processAttackCollision s)
     \<and> blocksPerformed (processAttackCollision s) = blocksPerformed s
     \<and> deathCount (processAttackCollision s) = deathCount s
     \<and> playerAlive (processAttackCollision s)"
  using assms
  by (cases "bossCurrentAttack s")
     (auto simp add: settled_def processAttackCollision_def Let_def)

lemma tick_settled:
  assumes "settled (Suc r) (state e)"
  shows "settled r (state (tick e))
     \<and> blocksPerformed (state (tick e)) = blocksPerformed (state e)
     \<and> deathCount (state (tick e)) = deathCount (state e)
     \<and> playerAlive (state (tick e)) = playerAlive (state e)"
proof (cases "playerAlive (state e)")
  case False
  then show ?thesis by (simp add: tick_def settled_def)
next
  case True
  let ?s1 = "(state e)\<lparr>currentFrame := currentFrame (state e) + 1\<rparr>"
  have b: "truthy (bossCurrentAttack (state e)) \<or> bossVulnerable (state e)"
    using assms True by (cases "bossCurrentAttack (state e)") (simp_all add: settled_def)
  have t: "state (tick e) = processVulnerability (staggerDecay (processPlayerAttack
      (processAttackCollision ?s1)))"
    using True b by (simp add: tick_def Let_def processBossAI_def)
  have "settled r (processAttackCollision ?s1)
     \<and> blocksPerformed (processAttackCollision ?s1) = blocksPerformed ?s1
     \<and> deathCount (processAttackCollision ?s1) = deathCount ?s1
     \<and> playerAlive (processAttackCollision ?s1)"
    using assms True by (intro settled_after_collision) simp_all
  then show ?thesis
    using True by (simp add: t counters_rest settled_rest settled_processVulnerability)
qed

lemma ticks_settled:
  assumes "settled k (state e)"
  shows "blocksPerformed (state (ticks k e)) = blocksPerformed (state e)
     \<and> deathCount (state (ticks k e)) = deathCount (state e)
     \<and> playerAlive (state (ticks k e)) = playerAlive (state e)"
  using assms
proof (induction k arbitrary: e)
  case 0
  then show ?case by simp
next
  case (Suc k)
  from tick_settled [OF Suc.prems] Suc.IH [of "tick e"] show ?case by simp
qed

lemma settled_mono: "settled (Suc r) s \<Longrightarrow> settled r s"
  by (auto simp add: settled_def split: AttackRef.splits)

lemma settled_le: "k \<le> r \<Longrightarrow> settled r s \<Longrightarrow> settled k s"
  by (induction r) (auto simp add: le_Suc_eq settled_mono)

lemma tick_impact_settled:
  assumes "playerAlive (state e)" "bossCurrentAttack (state e) = Active a"
    "\<not> bossAttackHitProcessed (state e)"
    "currentFrame (state e) + 1 - bossAttackStartFrame (state e)
       = windupFrames a + IMPACT_DELAY_FRAMES"
    "int r \<le> activeFrames a + recoveryFrames a - IMPACT_DELAY_FRAMES"
    "int r < VULNERABILITY_DURATION_FRAMES"
  shows "settled r (state (tick e))"
proof -
  let ?s1 = "(state e)\<lparr>currentFrame := currentFrame (state e) + 1\<rparr>"
  have t: "state (tick e) = processVulnerability (staggerDecay (processPlayerAttack
      (processAttackCollision ?s1)))"
    using assms(1,2) by (simp add: tick_def Let_def processBossAI_def)
  have "settled r (processAttackCollision ?s1)"
    using assms
    by (auto simp add: settled_def processAttackCollision_def Let_def handleBlock_def
        handlePlayerDeath_def triggerVulnerability_def)
  then show ?thesis
    by (simp add: t settled_rest settled_processVulnerability)
qed

lemma ticks_add: "ticks (m + n) e = ticks n (ticks m e)"
  by (induction m arbitrary: e) simp_all

lemma ticks_Suc_end: "ticks (Suc n) e = tick (ticks n e)"
  using ticks_add [of n 1 e] by simp

lemma blockable_center_100:
  assumes "a \<in> set RUST_WARDEN_ATTACKS" "zone a = ZONE_CENTER" "isBlocking a"
    "windupFrames a = 100"
  shows "activeFrames a = 40 \<and> recoveryFrames a = 30"
  using assms by (auto simp add: RUST_WARDEN_ATTACKS_def)

text \<open>
  Claim C5. Let the blockable attack of zone CENTER with \<open>windupFrames = 100\<close> be in
  flight with its hit not processed, \<open>n\<close> ticks before its elapsed frames reach
  \<open>100 + IMPACT_DELAY_FRAMES = 125\<close>. No earlier tick resolves anything; the \<open>n\<close>-th
  tick resolves the impact: with the shield at CENTER \<open>blocksPerformed\<close> grows by 1 and
  the player stays alive; with the shield at LEFT \<open>deathCount\<close> grows by 1 and the player
  dies in standard mode and stays alive in practice mode. The 45 ticks that follow (the
  rest of the attack) change none of the three.
\<close>

theorem block_resolution:
  assumes "playerAlive (state e)"
    and "bossCurrentAttack (state e) = Active a"
    and "a \<in> set RUST_WARDEN_ATTACKS"
    and "zone a = ZONE_CENTER" and "isBlocking a" and "windupFrames a = 100"
    and "\<not> bossAttackHitProcessed (state e)"
    and "currentFrame (state e) - bossAttackStartFrame (state e) + int n
           = 100 + IMPACT_DELAY_FRAMES"
    and "0 < n"
  shows "(\<forall>k<n. blocksPerformed (state (ticks k e)) = blocksPerformed (state e)
            \<and> deathCount (state (ticks k e)) = deathCount (state e)
            \<and> playerAlive (state (ticks k e))
            \<and> \<not> bossAttackHitProcessed (state (ticks k e)))
     \<and> currentFrame (state (ticks n e)) - bossAttackStartFrame (state e) = 125
     \<and> (playerShieldZone (state e) = ZONE_CENTER \<longrightarrow>
            blocksPerformed (state (ticks n e)) = blocksPerformed (state e) + 1
            \<and> deathCount (state (ticks n e)) = deathCount (state e)
            \<and> playerAlive (state (ticks n e)))
     \<and> (playerShieldZone (state e) = ZONE_LEFT \<longrightarrow>
            blocksPerformed (state (ticks n e)) = blocksPerformed (state e)
            \<and> deathCount (state (ticks n e)) = deathCount (state e) + 1
            \<and> (mode (state e) = STANDARD \<longrightarrow> \<not> playerAlive (state (ticks n e)))
            \<and> (mode (state e) = PRACTICE \<longrightarrow> playerAlive (state (ticks n e))))
     \<and> (\<forall>k\<le>45. blocksPerformed (state (ticks (n + k) e))
                = blocksPerformed (state (ticks n e))
            \<and> deathCount (state (ticks (n + k) e)) = deathCount (state (ticks n e))
            \<and> playerAlive (state (ticks (n + k) e)) = playerAlive (state (ticks n e)))"
proof -
  have fr: "activeFrames a = 40" "recoveryFrames a = 30"
    using blockable_center_100 [OF assms(3,4,5,6)] by simp_all
  obtain m where n: "n = Suc m"
    using assms(9) by (cases n) simp_all
  have before: "impact_view (state (ticks k e)) = impact_view (state e)
      \<and> currentFrame (state (ticks k e)) = currentFrame (state e) + int k" if "k < n" for k
    using assms(1,2,7,8) that fr
    by (intro ticks_before_impact [where a = a]) (simp_all add: IMPACT_DELAY_FRAMES_def assms(6))
  let ?e' = "ticks m e"
  have m: "impact_view (state ?e') = impact_view (state e)"
      "currentFrame (state ?e') = currentFrame (state e) + int m"
    using before [of m] n by simp_all
  have e': "playerAlive (state ?e')" "bossCurrentAttack (state ?e') = Active a"
      "\<not> bossAttackHitProcessed (state ?e')"
      "bossAttackStartFrame (state ?e') = bossAttackStartFrame (state e)"
      "playerShieldZone (state ?e') = playerShieldZone (state e)"
      "mode (state ?e') = mode (state e)"
      "blocksPerformed (state ?e') = blocksPerformed (state e)"
      "deathCount (state ?e') = deathCount (state e)"
    using m(1) assms(1,2,7) by (simp_all add: impact_view_def)
  have at: "currentFrame (state ?e') + 1 - bossAttackStartFrame (state ?e')
       = windupFrames a + IMPACT_DELAY_FRAMES"
    using assms(6,8) n by (simp add: m(2) e'(4))
  have tn: "ticks n e = tick ?e'"
    by (simp only: n ticks_Suc_end)
  have c1: "\<forall>k<n. blocksPerformed (state (ticks k e)) = blocksPerformed (state e)
            \<and> deathCount (state (ticks k e)) = deathCount (state e)
            \<and> playerAlive (state (ticks k e))
            \<and> \<not> bossAttackHitProcessed (state (ticks k e))"
    using before assms(1,7) by (simp add: impact_view_def)
  have c2: "currentFrame (state (ticks n e)) - bossAttackStartFrame (state e) = 125"
    using tick_view(2) [of ?e'] e'(1,2) at assms(6)
    by (simp add: tn e'(4) IMPACT_DELAY_FRAMES_def)
  have c3: "playerShieldZone (state e) = ZONE_CENTER \<longrightarrow>
            blocksPerformed (state (ticks n e)) = blocksPerformed (state e) + 1
            \<and> deathCount (state (ticks n e)) = deathCount (state e)
            \<and> playerAlive (state (ticks n e))"
    using tick_at_impact(1) [OF e'(1,2,3) at] assms(4,5) by (simp add: tn e')
  have c4: "playerShieldZone (state e) = ZONE_LEFT \<longrightarrow>
            blocksPerformed (state (ticks n e)) = blocksPerformed (state e)
            \<and> deathCount (state (ticks n e)) = deathCount (state e) + 1
            \<and> (mode (state e) = STANDARD \<longrightarrow> \<not> playerAlive (state (ticks n e)))
            \<and> (mode (state e) = PRACTICE \<longrightarrow> playerAlive (state (ticks n e)))"
    using tick_at_impact(2) [OF e'(1,2,3) at] assms(4)
    by (simp add: tn e' ZONE_LEFT_def ZONE_CENTER_def)
  have s: "settled 45 (state (ticks n e))"
    unfolding tn using e'(1,2,3) at
    by (rule tick_impact_settled)
       (simp_all add: fr IMPACT_DELAY_FRAMES_def VULNERABILITY_DURATION_FRAMES_def)
  have c5: "\<forall>k\<le>45. blocksPerformed (state (ticks (n + k) e))
                = blocksPerformed (state (ticks n e))
            \<and> deathCount (state (ticks (n + k) e)) = deathCount (state (ticks n e))
            \<and> playerAlive (state (ticks (n + k) e)) = playerAlive (state (ticks n e))"
    using ticks_settled [OF settled_le [OF _ s]] by (simp add: ticks_add)
  from c1 c2 c3 c4 c5 show ?thesis by blast
qed

section \<open>Example engines\<close>

lemma startBossAttack_seed_109:
  assumes "rngState e = 24089762" "mode (state e) = STANDARD"
  shows "startBossAttack e =
     e\<lparr>rngState := 857199920, state := executeAttack (Active bash_center) (state e)\<rparr>"
  using assms
  by (simp add: startBossAttack_def rng_def rng_seed_109 Let_def catalog_length bash_center_def)

lemma randomAttack_seed_109:
  assumes "rngState e = 109" "mode (state e) = STANDARD"
  shows "randomAttack e =
     e\<lparr>rngState := 857199920, state := executeAttack (Active bash_center) (state e)\<rparr>"
  using assms
  by (simp add: randomAttack_def rng_def rng_seed_109 Let_def startBossAttack_seed_109)

lemma attack_facts:
  "zone bash_center = ZONE_CENTER" "isBlocking bash_center" "windupFrames bash_center = 100"
  "activeFrames bash_center = 40" "recoveryFrames bash_center = 30"
  "bash_center \<in> set RUST_WARDEN_ATTACKS"
  "zone flail_sweep = ZONE_CENTER" "\<not> isBlocking flail_sweep" "windupFrames flail_sweep = 90"
  "activeFrames flail_sweep = 45" "recoveryFrames flail_sweep = 60"
  by (simp_all add: bash_center_def flail_sweep_def RUST_WARDEN_ATTACKS_def)

text \<open>The first tick of a fresh engine whose boss step starts the attack \<open>a\<close>.\<close>

lemma first_tick:
  assumes "e = CombatSystem_new seed maxHP md now"
    and "processBossAI (e\<lparr>state := (state e)\<lparr>currentFrame := currentFrame (state e) + 1\<rparr>\<rparr>)
           = e\<lparr>rngState := r, forcedAttackQueue := [],
               state := executeAttack (Active a)
                 ((state e)\<lparr>currentFrame := currentFrame (state e) + 1\<rparr>)\<rparr>"
    and "0 < windupFrames a" "0 \<le> activeFrames a" "0 \<le> recoveryFrames a"
  shows "tick e = e\<lparr>rngState := r,
           state := (state e)\<lparr>currentFrame := 1, bossCurrentAttack := Active a,
             bossAttackStartFrame := 1\<rparr>\<rparr>"
proof -
  let ?s2 = "(state e)\<lparr>currentFrame := 1, bossCurrentAttack := Active a,
             bossAttackStartFrame := 1\<rparr>"
  have f: "playerAlive (state e)" "currentFrame (state e) = 0" "bossStagger (state e) = 0"
    "\<not> playerAttacking (state e)" "\<not> bossVulnerable (state e)" "forcedAttackQueue e = []"
    by (simp_all add: assms(1) CombatSystem_new_def)
  have x: "executeAttack (Active a) ((state e)\<lparr>currentFrame := currentFrame (state e) + 1\<rparr>) = ?s2"
    by (simp add: executeAttack_def assms(1) CombatSystem_new_def)
  have c: "processAttackCollision ?s2 = ?s2"
    using assms(3,4,5) by (simp add: processAttackCollision_def Let_def IMPACT_DELAY_FRAMES_def)
  have p: "processPlayerAttack ?s2 = ?s2"
    by (simp add: processPlayerAttack_def f)
  have d: "staggerDecay ?s2 = ?s2"
    by (rule staggerDecay_zero) (simp add: f)
  have v: "processVulnerability ?s2 = ?s2"
    by (simp add: processVulnerability_def f)
  have "tick e = e\<lparr>rngState := r, forcedAttackQueue := [], state := ?s2\<rparr>"
    unfolding tick_def Let_def assms(2) x using f(1) by (simp add: c p d v)
  moreover have "e\<lparr>forcedAttackQueue := []\<rparr> = e"
    using f(6) by simp
  ultimately show ?thesis by (simp add: assms(1) CombatSystem_new_def)
qed

lemma standard_center_eq:
  "standard_center = (CombatSystem_new 109 10 STANDARD 0)\<lparr>rngState := 857199920,
     state := (state (CombatSystem_new 109 10 STANDARD 0))\<lparr>currentFrame := 1,
       bossCurrentAttack := Active bash_center, bossAttackStartFrame := 1\<rparr>\<rparr>"
  unfolding standard_center_def
proof (rule first_tick [OF refl])
  let ?e = "CombatSystem_new 109 10 STANDARD 0"
  let ?e1 = "?e\<lparr>state := (state ?e)\<lparr>currentFrame := currentFrame (state ?e) + 1\<rparr>\<rparr>"
  have r: "randomAttack ?e1 =
      ?e1\<lparr>rngState := 857199920, state := executeAttack (Active bash_center) (state ?e1)\<rparr>"
    by (rule randomAttack_seed_109) (simp_all add: CombatSystem_new_def createSeededRandom_def)
  show "processBossAI ?e1 = ?e\<lparr>rngState := 857199920, forcedAttackQueue := [],
      state := executeAttack (Active bash_center)
        ((state ?e)\<lparr>currentFrame := currentFrame (state ?e) + 1\<rparr>)\<rparr>"
  proof -
    have "processBossAI ?e1 = randomAttack ?e1"
      by (simp add: processBossAI_def CombatSystem_new_def)
    then show ?thesis
      unfolding r by (simp add: CombatSystem_new_def)
  qed
qed (simp_all add: attack_facts)

lemma find_bash_center:
  "find (\<lambda>a. id_attack a = ''bash_center'') RUST_WARDEN_ATTACKS = Some bash_center"
  by (simp add: RUST_WARDEN_ATTACKS_def bash_center_def)

lemma practice_center_eq:
  "practice_center = (CombatSystem_new 0 10 PRACTICE 0)\<lparr>rngState := 0,
     state := (state (CombatSystem_new 0 10 PRACTICE 0))\<lparr>currentFrame := 1,
       bossCurrentAttack := Active bash_center, bossAttackStartFrame := 1\<rparr>\<rparr>"
proof -
  let ?e = "CombatSystem_new 0 10 PRACTICE 0"
  let ?q = "?e\<lparr>forcedAttackQueue := [''bash_center'']\<rparr>"
  let ?s2 = "(state ?e)\<lparr>currentFrame := 1, bossCurrentAttack := Active bash_center,
             bossAttackStartFrame := 1\<rparr>"
  have q: "forceAttack ''bash_center'' ?e = ?q"
    by (simp add: forceAttack_def CombatSystem_new_def)
  have b: "processBossAI (?q\<lparr>state := (state ?q)\<lparr>currentFrame := currentFrame (state ?q) + 1\<rparr>\<rparr>)
      = ?e\<lparr>state := ?s2\<rparr>"
    by (simp add: processBossAI_def find_bash_center executeAttack_def Let_def)
       (simp add: CombatSystem_new_def)
  have c: "processAttackCollision ?s2 = ?s2"
    by (simp add: processAttackCollision_def Let_def IMPACT_DELAY_FRAMES_def attack_facts
        CombatSystem_new_def)
  have p: "processPlayerAttack ?s2 = ?s2"
    by (simp add: processPlayerAttack_def CombatSystem_new_def)
  have d: "staggerDecay ?s2 = ?s2"
    by (rule staggerDecay_zero) (simp add: CombatSystem_new_def)
  have v: "processVulnerability ?s2 = ?s2"
    by (simp add: processVulnerability_def CombatSystem_new_def)
  have a: "playerAlive (state ?q)"
    by (simp add: CombatSystem_new_def)
  have "tick ?q = ?e\<lparr>state := ?s2\<rparr>"
    unfolding tick_def Let_def b using a by (simp add: c p d v)
  then show ?thesis
    unfolding practice_center_def q by (simp add: CombatSystem_new_def createSeededRandom_def)
qed

lemma tick_seed_0_eq:
  "tick (CombatSystem_new 0 10 STANDARD 0) = (CombatSystem_new 0 10 STANDARD 0)
     \<lparr>rngState := 1406932606,
      state := (state (CombatSystem_new 0 10 STANDARD 0))\<lparr>currentFrame := 1,
        bossCurrentAttack := Active flail_sweep, bossAttackStartFrame := 1\<rparr>\<rparr>"
  by (rule tick_seed_0)

lemma fallen_engine_dead:
  "\<not> playerAlive (state fallen_engine)"
  "inputLog fallen_engine = []"
proof -
  let ?e1 = "tick (CombatSystem_new 0 10 STANDARD 0)"
  have e1: "playerAlive (state ?e1)" "bossCurrentAttack (state ?e1) = Active flail_sweep"
    "\<not> playerAttacking (state ?e1)" "\<not> bossVulnerable (state ?e1)"
    "bossStagger (state ?e1) = 0" "\<not> bossAttackHitProcessed (state ?e1)"
    "currentFrame (state ?e1) = 1" "bossAttackStartFrame (state ?e1) = 1"
    "mode (state ?e1) = STANDARD" "inputLog ?e1 = []"
    "playerShieldZone (state ?e1) = ZONE_CENTER"
    by (simp_all add: tick_seed_0_eq) (simp_all add: CombatSystem_new_def)
  let ?e2 = "ticks 114 ?e1"
  have q: "?e2 = ?e1\<lparr>state := (state ?e1)\<lparr>currentFrame := currentFrame (state ?e1) + int 114\<rparr>\<rparr>"
    using e1 by (intro ticks_quiet [where a = flail_sweep])
      (simp_all add: attack_facts IMPACT_DELAY_FRAMES_def)
  have e2: "playerAlive (state ?e2)" "bossCurrentAttack (state ?e2) = Active flail_sweep"
    "\<not> bossAttackHitProcessed (state ?e2)"
    "currentFrame (state ?e2) + 1 - bossAttackStartFrame (state ?e2)
       = windupFrames flail_sweep + IMPACT_DELAY_FRAMES"
    "mode (state ?e2) = STANDARD" "inputLog ?e2 = []"
    by (simp_all add: q e1 attack_facts IMPACT_DELAY_FRAMES_def)
  show "\<not> playerAlive (state fallen_engine)"
    using tick_at_impact(2) [OF e2(1,2,3,4)] e2(5)
    by (simp add: fallen_engine_def attack_facts)
  have "inputLog (tick e) = inputLog e" for e
    by (simp add: tick_def Let_def processBossAI_def randomAttack_def startBossAttack_def
        split: list.splits option.splits prod.splits)
  then show "inputLog fallen_engine = []"
    by (simp add: fallen_engine_def e2(6))
qed

section \<open>The frame counter\<close>

text \<open>
  Claim C6. A call of \<open>tick\<close> adds exactly 1 to \<open>currentFrame\<close> while the player is
  alive and returns the engine unchanged once the player is dead; no command changes
  \<open>currentFrame\<close>.
\<close>

theorem tick_currentFrame:
  "(playerAlive (state e) \<longrightarrow> currentFrame (state (tick e)) = currentFrame (state e) + 1)
   \<and> (\<not> playerAlive (state e) \<longrightarrow> tick e = e)
   \<and> currentFrame (state (moveShield z e)) = currentFrame (state e)
   \<and> currentFrame (state (snd (attemptParry z acc e))) = currentFrame (state e)
   \<and> currentFrame (state (playerAttack e)) = currentFrame (state e)
   \<and> currentFrame (state (setPracticeAttack a b e)) = currentFrame (state e)
   \<and> currentFrame (state (forceAttack a e)) = currentFrame (state e)"
  by (simp add: tick_def moveShield_def attemptParry_def playerAttack_def setPracticeAttack_def
      forceAttack_def Let_def split: AttackRef.splits)

theorem tick_currentFrame_witness:
  "playerAlive (state (CombatSystem_new 0 10 STANDARD 0))
   \<and> currentFrame (state (tick (CombatSystem_new 0 10 STANDARD 0)))
       = currentFrame (state (CombatSystem_new 0 10 STANDARD 0)) + 1
   \<and> \<not> playerAlive (state fallen_engine)
   \<and> tick fallen_engine = fallen_engine"
  using tick_currentFrame [of "CombatSystem_new 0 10 STANDARD 0"]
    tick_currentFrame [of fallen_engine] fallen_engine_dead(1)
  by (simp add: CombatSystem_new_def)

section \<open>The input log of a parry attempt\<close>

text \<open>
  Claim C8, as amended. While the player is alive, every call of \<open>attemptParry\<close>
  appends one parry event with the current frame, the zone and the accuracy to the input
  log, whatever it returns; once the player is dead the call returns false and leaves the
  engine, and so the log, unchanged.
\<close>

theorem attemptParry_log:
  "(playerAlive (state e) \<longrightarrow>
      getInputLog (snd (attemptParry z acc e)) = getInputLog e @
        [\<lparr>frame = currentFrame (state e), type_event = parry, zone_event = Some z,
          accuracy_event = Some acc\<rparr>])
   \<and> (\<not> playerAlive (state e) \<longrightarrow> attemptParry z acc e = (False, e))"
  by (simp add: attemptParry_def getInputLog_def Let_def split: AttackRef.splits)

theorem attemptParry_log_witness:
  "playerAlive (state (CombatSystem_new 0 10 STANDARD 0))
   \<and> getInputLog (snd (attemptParry ZONE_LEFT (1 / 2) (CombatSystem_new 0 10 STANDARD 0)))
       = [\<lparr>frame = 0, type_event = parry, zone_event = Some ZONE_LEFT,
           accuracy_event = Some (1 / 2)\<rparr>]
   \<and> \<not> playerAlive (state fallen_engine)
   \<and> attemptParry ZONE_LEFT (1 / 2) fallen_engine = (False, fallen_engine)"
  using attemptParry_log [of "CombatSystem_new 0 10 STANDARD 0" ZONE_LEFT "1 / 2"]
    attemptParry_log [of fallen_engine ZONE_LEFT "1 / 2"] fallen_engine_dead(1)
  by (simp add: CombatSystem_new_def getInputLog_def)

text \<open>
  Claim C8 as stated fails: after the player has died (seed 0, standard mode, 116 ticks)
  a call of \<open>attemptParry\<close> appends nothing to the input log.
\<close>

theorem attemptParry_log_counterexample:
  "getInputLog (snd (attemptParry ZONE_CENTER 1 fallen_engine)) = []
   \<and> getInputLog (snd (attemptParry ZONE_CENTER 1 fallen_engine))
       \<noteq> getInputLog fallen_engine @
           [\<lparr>frame = currentFrame (state fallen_engine), type_event = parry,
             zone_event = Some ZONE_CENTER, accuracy_event = Some 1\<rparr>]"
  using fallen_engine_dead by (simp add: attemptParry_def getInputLog_def)

section \<open>Construction\<close>

text \<open>
  Claim C7, as amended. The constructor validates nothing: for every boss max-HP value,
  also a non-positive one, it returns an engine whose \<open>bossHP\<close> and \<open>bossMaxHP\<close> are
  that value; with a non-positive value the boss counts as defeated from the start.
\<close>

theorem construct_total:
  "construct seed maxHP md now = Inr (CombatSystem_new seed maxHP md now)
   \<and> bossHP (state (CombatSystem_new seed maxHP md now)) = maxHP
   \<and> bossMaxHP (state (CombatSystem_new seed maxHP md now)) = maxHP
   \<and> (maxHP \<le> 0 \<longrightarrow> isBossDefeated (CombatSystem_new seed maxHP md now))"
  by (simp add: construct_def CombatSystem_new_def isBossDefeated_def)

theorem construct_total_witness:
  "(- 5 :: int) \<le> 0
   \<and> construct 0 (- 5) STANDARD 0 = Inr (CombatSystem_new 0 (- 5) STANDARD 0)
   \<and> isBossDefeated (CombatSystem_new 0 (- 5) STANDARD 0)"
  using construct_total [of 0 "- 5" STANDARD 0] by simp

text \<open>
  Claim C7 as stated fails: constructing with max-HP \<open>0\<close> or \<open>- 5\<close> returns an engine
  and no validation error.
\<close>

theorem construct_counterexample:
  "construct 0 0 STANDARD 0 = Inr (CombatSystem_new 0 0 STANDARD 0)
   \<and> construct 0 (- 5) STANDARD 0 \<noteq> Inl NonPositiveMaxHP
   \<and> \<not> isl (construct 0 (- 5) STANDARD 0)"
  by (simp add: construct_def)

section \<open>The parry window and the block on the example engines\<close>

lemma standard_center_facts:
  "playerAlive (state standard_center)"
  "bossCurrentAttack (state standard_center) = Active bash_center"
  "\<not> bossAttackHitProcessed (state standard_center)"
  "currentFrame (state standard_center) = 1"
  "bossAttackStartFrame (state standard_center) = 1"
  "mode (state standard_center) = STANDARD"
  "playerShieldZone (state standard_center) = ZONE_CENTER"
  "blocksPerformed (state standard_center) = 0"
  "deathCount (state standard_center) = 0"
  "\<not> playerAttacking (state standard_center)"
  "\<not> bossVulnerable (state standard_center)"
  "bossStagger (state standard_center) = 0"
  by (simp_all add: standard_center_eq) (simp_all add: CombatSystem_new_def)

lemma practice_center_facts:
  "playerAlive (state practice_center)"
  "bossCurrentAttack (state practice_center) = Active bash_center"
  "\<not> bossAttackHitProcessed (state practice_center)"
  "currentFrame (state practice_center) = 1"
  "bossAttackStartFrame (state practice_center) = 1"
  "mode (state practice_center) = PRACTICE"
  "playerShieldZone (state practice_center) = ZONE_CENTER"
  "blocksPerformed (state practice_center) = 0"
  "deathCount (state practice_center) = 0"
  "\<not> playerAttacking (state practice_center)"
  "\<not> bossVulnerable (state practice_center)"
  "bossStagger (state practice_center) = 0"
  by (simp_all add: practice_center_eq) (simp_all add: CombatSystem_new_def)

lemma moveShield_alive:
  "playerAlive (state e) \<Longrightarrow> state (moveShield z e) = (state e)\<lparr>playerShieldZone := z\<rparr>"
  by (simp add: moveShield_def)

text \<open>
  Claim C4. For an attack in flight with \<open>windupFrames = 100\<close> and \<open>activeFrames = 40\<close>
  whose impact has not been processed, and a living player, \<open>attemptParry\<close> with the
  attack's zone returns true exactly when the frames elapsed since its start lie in
  \<open>[55, 140)\<close>, whatever the accuracy.
\<close>

theorem attemptParry_window:
  assumes "playerAlive (state e)"
    and "bossCurrentAttack (state e) = Active a"
    and "windupFrames a = 100" and "activeFrames a = 40"
    and "\<not> bossAttackHitProcessed (state e)"
  shows "fst (attemptParry (zone a) acc e)
     = (55 \<le> currentFrame (state e) - bossAttackStartFrame (state e)
        \<and> currentFrame (state e) - bossAttackStartFrame (state e) < 140)"
  using assms by (simp add: attemptParry_def Let_def)

lemma ticks_standard_center:
  "n \<le> 124 \<Longrightarrow> ticks n standard_center = at_frame (1 + int n) standard_center"
  unfolding at_frame_def
  using ticks_quiet [where a = bash_center and e = standard_center and n = n]
  by (simp add: standard_center_facts attack_facts IMPACT_DELAY_FRAMES_def)

theorem attemptParry_window_witness:
  "playerAlive (state standard_center)
   \<and> bossCurrentAttack (state standard_center) = Active bash_center
   \<and> windupFrames bash_center = 100 \<and> activeFrames bash_center = 40
   \<and> \<not> bossAttackHitProcessed (state standard_center)
   \<and> \<not> fst (attemptParry ZONE_CENTER 1 (ticks 54 standard_center))
   \<and> fst (attemptParry ZONE_CENTER 1 (ticks 55 standard_center))
   \<and> fst (attemptParry ZONE_CENTER (1 / 2) (ticks 55 standard_center))
   \<and> fst (attemptParry ZONE_CENTER 1 (at_frame 140 standard_center))
   \<and> \<not> fst (attemptParry ZONE_CENTER 1 (at_frame 141 standard_center))"
  using attemptParry_window [of "at_frame 55 standard_center" bash_center 1]
    attemptParry_window [of "at_frame 56 standard_center" bash_center 1]
    attemptParry_window [of "at_frame 56 standard_center" bash_center "1 / 2"]
    attemptParry_window [of "at_frame 140 standard_center" bash_center 1]
    attemptParry_window [of "at_frame 141 standard_center" bash_center 1]
  by (simp add: ticks_standard_center standard_center_facts attack_facts at_frame_def)

theorem block_resolution_witness:
  "playerAlive (state standard_center)
   \<and> bossCurrentAttack (state standard_center) = Active bash_center
   \<and> playerShieldZone (state standard_center) = ZONE_CENTER
   \<and> blocksPerformed (state (ticks 124 standard_center)) = 0
   \<and> blocksPerformed (state (ticks 125 standard_center)) = 1
   \<and> playerAlive (state (ticks 125 standard_center))
   \<and> blocksPerformed (state (ticks (125 + 45) standard_center)) = 1
   \<and> mode (state (moveShield ZONE_LEFT standard_center)) = STANDARD
   \<and> \<not> playerAlive (state (ticks 125 (moveShield ZONE_LEFT standard_center)))
   \<and> mode (state (moveShield ZONE_LEFT practice_center)) = PRACTICE
   \<and> deathCount (state (ticks 125 (moveShield ZONE_LEFT practice_center))) = 1
   \<and> playerAlive (state (ticks 125 (moveShield ZONE_LEFT practice_center)))"
proof -
  have c: "(\<forall>k<125. blocksPerformed (state (ticks k standard_center)) = 0)
      \<and> blocksPerformed (state (ticks 125 standard_center)) = 1
      \<and> playerAlive (state (ticks 125 standard_center))
      \<and> (\<forall>k\<le>45. blocksPerformed (state (ticks (125 + k) standard_center)) = 1)"
    using block_resolution [of standard_center bash_center 125]
    by (simp add: standard_center_facts attack_facts IMPACT_DELAY_FRAMES_def)
  have l: "\<not> playerAlive (state (ticks 125 (moveShield ZONE_LEFT standard_center)))"
    using block_resolution [of "moveShield ZONE_LEFT standard_center" bash_center 125]
    by (simp add: moveShield_alive standard_center_facts attack_facts IMPACT_DELAY_FRAMES_def)
  have p: "deathCount (state (ticks 125 (moveShield ZONE_LEFT practice_center))) = 1
      \<and> playerAlive (state (ticks 125 (moveShield ZONE_LEFT practice_center)))"
    using block_resolution [of "moveShield ZONE_LEFT practice_center" bash_center 125]
    by (simp add: moveShield_alive practice_center_facts attack_facts IMPACT_DELAY_FRAMES_def)
  have c45: "blocksPerformed (state (ticks (125 + 45) standard_center)) = 1"
    using c [THEN conjunct2, THEN conjunct2, THEN conjunct2, THEN spec, of 45] by simp
  have c124: "blocksPerformed (state (ticks 124 standard_center)) = 0"
    using c [THEN conjunct1, THEN spec, of 124] by simp
  from c c45 c124 l p show ?thesis
    by (simp add: moveShield_alive standard_center_facts practice_center_facts)
qed

section \<open>Replay and the clock reading of the constructor\<close>

lemma retime_state_steps:
  "dealDamageToBoss d (s\<lparr>runStartTime := t\<rparr>) = (dealDamageToBoss d s)\<lparr>runStartTime := t\<rparr>"
  "triggerVulnerability (s\<lparr>runStartTime := t\<rparr>) = (triggerVulnerability s)\<lparr>runStartTime := t\<rparr>"
  "handleParry acc (s\<lparr>runStartTime := t\<rparr>) = (handleParry acc s)\<lparr>runStartTime := t\<rparr>"
  "handleBlock (s\<lparr>runStartTime := t\<rparr>) = (handleBlock s)\<lparr>runStartTime := t\<rparr>"
  "handlePlayerDeath (s\<lparr>runStartTime := t\<rparr>) = (handlePlayerDeath s)\<lparr>runStartTime := t\<rparr>"
  "executeAttack a (s\<lparr>runStartTime := t\<rparr>) = (executeAttack a s)\<lparr>runStartTime := t\<rparr>"
  "processPlayerAttack (s\<lparr>runStartTime := t\<rparr>) = (processPlayerAttack s)\<lparr>runStartTime := t\<rparr>"
  "processVulnerability (s\<lparr>runStartTime := t\<rparr>) = (processVulnerability s)\<lparr>runStartTime := t\<rparr>"
  "staggerDecay (s\<lparr>runStartTime := t\<rparr>) = (staggerDecay s)\<lparr>runStartTime := t\<rparr>"
  by (simp_all add: state_defs Let_def)

lemma retime_processAttackCollision:
  "processAttackCollision (s\<lparr>runStartTime := t\<rparr>)
     = (processAttackCollision s)\<lparr>runStartTime := t\<rparr>"
  by (cases "bossCurrentAttack s")
     (simp_all add: processAttackCollision_def Let_def retime_state_steps)

lemma retime_simps:
  "state (retime t e) = (state e)\<lparr>runStartTime := t\<rparr>"
  "rngState (retime t e) = rngState e"
  "forcedAttackQueue (retime t e) = forcedAttackQueue e"
  "inputLog (retime t e) = inputLog e"
  "(retime t e)\<lparr>rngState := x\<rparr> = retime t (e\<lparr>rngState := x\<rparr>)"
  "(retime t e)\<lparr>forcedAttackQueue := q\<rparr> = retime t (e\<lparr>forcedAttackQueue := q\<rparr>)"
  "(retime t e)\<lparr>inputLog := l\<rparr> = retime t (e\<lparr>inputLog := l\<rparr>)"
  "(retime t e)\<lparr>state := s\<lparr>runStartTime := t\<rparr>\<rparr> = retime t (e\<lparr>state := s\<rparr>)"
  by (cases e; simp add: retime_def)+

lemma retime_fields:
  "mode (s\<lparr>runStartTime := t\<rparr>) = mode s"
  "enabledAttacks (s\<lparr>runStartTime := t\<rparr>) = enabledAttacks s"
  "bossCurrentAttack (s\<lparr>runStartTime := t\<rparr>) = bossCurrentAttack s"
  "bossVulnerable (s\<lparr>runStartTime := t\<rparr>) = bossVulnerable s"
  "playerAlive (s\<lparr>runStartTime := t\<rparr>) = playerAlive s"
  by simp_all

lemma retime_startBossAttack:
  "startBossAttack (retime t e) = retime t (startBossAttack e)"
  by (simp add: startBossAttack_def Let_def retime_simps retime_state_steps split: prod.splits)

lemma retime_randomAttack:
  "randomAttack (retime t e) = retime t (randomAttack e)"
  by (simp add: randomAttack_def Let_def retime_simps retime_startBossAttack split: prod.splits)

lemma retime_processBossAI:
  "processBossAI (retime t e) = retime t (processBossAI e)"
  by (simp add: processBossAI_def Let_def retime_simps retime_randomAttack retime_state_steps
      split: list.splits option.splits)

lemma retime_tick: "tick (retime t e) = retime t (tick e)"
proof (cases "playerAlive (state e)")
  case False
  then show ?thesis by (simp add: tick_def retime_simps)
next
  case True
  have f: "(state e)\<lparr>runStartTime := t, currentFrame := n\<rparr>
      = (state e)\<lparr>currentFrame := n\<rparr>\<lparr>runStartTime := t\<rparr>" for n
    by simp
  show ?thesis
    using True
    by (simp add: tick_def Let_def retime_simps f retime_processBossAI retime_state_steps
        retime_processAttackCollision del: CombatState.update_convs)
qed

lemma retime_swap:
  "s\<lparr>runStartTime := t, playerShieldZone := z\<rparr> = s\<lparr>playerShieldZone := z, runStartTime := t\<rparr>"
  "s\<lparr>runStartTime := t, bossAttackHitProcessed := b\<rparr>
     = s\<lparr>bossAttackHitProcessed := b, runStartTime := t\<rparr>"
  "s\<lparr>runStartTime := t, playerAttacking := b, playerAttackFrame := n\<rparr>
     = s\<lparr>playerAttacking := b, playerAttackFrame := n, runStartTime := t\<rparr>"
  "s\<lparr>runStartTime := t, enabledAttacks := en\<rparr> = s\<lparr>enabledAttacks := en, runStartTime := t\<rparr>"
  by simp_all

lemma retime_moveShield: "moveShield z (retime t e) = retime t (moveShield z e)"
  by (simp add: moveShield_def retime_simps retime_swap del: CombatState.update_convs)

lemma retime_playerAttack: "playerAttack (retime t e) = retime t (playerAttack e)"
  by (simp add: playerAttack_def retime_simps retime_swap del: CombatState.update_convs)

lemma retime_setPracticeAttack:
  "setPracticeAttack a b (retime t e) = retime t (setPracticeAttack a b e)"
  by (simp add: setPracticeAttack_def retime_simps retime_swap del: CombatState.update_convs)

lemma retime_forceAttack: "forceAttack a (retime t e) = retime t (forceAttack a e)"
  by (simp add: forceAttack_def retime_simps)

lemma retime_attemptParry:
  "attemptParry z acc (retime t e)
     = (fst (attemptParry z acc e), retime t (snd (attemptParry z acc e)))"
  by (cases "bossCurrentAttack (state e)")
     (simp_all add: attemptParry_def Let_def retime_simps retime_swap retime_state_steps
       del: CombatState.update_convs)

lemma retime_exec: "exec c (retime t e) = retime t (exec c e)"
  by (cases c)
     (simp_all add: retime_tick retime_moveShield retime_playerAttack retime_setPracticeAttack
       retime_forceAttack retime_attemptParry)

lemma retime_snapshots:
  "snapshots cs (retime t e) = map (\<lambda>s. s\<lparr>runStartTime := t\<rparr>) (snapshots cs e)"
  by (induction cs arbitrary: e) (simp_all add: retime_exec getState_def retime_simps)

lemma retime_new:
  "CombatSystem_new seed maxHP md t = retime t (CombatSystem_new seed maxHP md t')"
  by (simp add: CombatSystem_new_def retime_def)

text \<open>
  Claim C1, as amended. Two engines constructed with the same seed, mode and boss max-HP
  and fed the same sequence of ticks and commands return, after every step, snapshots that
  agree in every field of \<open>CombatState\<close> other than \<open>runStartTime\<close>, which holds the clock
  reading of each construction; \<open>attemptParry\<close> returns the same booleans in both.
\<close>

theorem replay_deterministic:
  "snapshots cs (CombatSystem_new seed maxHP md now')
     = map (\<lambda>s. s\<lparr>runStartTime := now'\<rparr>) (snapshots cs (CombatSystem_new seed maxHP md now))
   \<and> fst (attemptParry z acc (run cs (CombatSystem_new seed maxHP md now')))
     = fst (attemptParry z acc (run cs (CombatSystem_new seed maxHP md now)))"
proof -
  have r: "run cs (retime t e) = retime t (run cs e)" for t e
    by (induction cs arbitrary: e) (simp_all add: retime_exec)
  show ?thesis
    by (simp add: retime_new [of seed maxHP md now' now] retime_snapshots r retime_attemptParry)
qed

text \<open>
  Claim C1 as stated fails: two engines constructed with seed 0, max-HP 10 and standard
  mode at clock readings 0 and 1 return different snapshots after the same first command.
\<close>

theorem replay_counterexample:
  "snapshots [MoveShield ZONE_LEFT] (CombatSystem_new 0 10 STANDARD 0)
     \<noteq> snapshots [MoveShield ZONE_LEFT] (CombatSystem_new 0 10 STANDARD 1)"
  by (simp add: getState_def moveShield_def CombatSystem_new_def)

section \<open>The range of the generator\<close>

text \<open>
  The state is masked with \<open>0x7fffffff\<close> and divided by the same \<open>0x7fffffff\<close>, so a
  state with all 31 bits set yields exactly 1. No integer seed reaches that state (see
  the generator on integer seeds below), but a seed with a fraction can: with the seed
  \<open>1.946027762\<close> (or \<open>- 12013 / 2 ^ 30\<close>) the first value of the stream is 1.
\<close>

lemma rng_value_one:
  "fst (rng (createSeededRandom (fl (1946027762 / 1000000000)))) = 1
   \<and> snd (rng (createSeededRandom (fl (1946027762 / 1000000000)))) = 2147483647
   \<and> fst (rng (createSeededRandom (- 12013 / 1073741824))) = 1"
  by code_simp

section \<open>Properties of the rounding\<close>

lemma pow2_powi: "pow2 e = 2 powi e"
  by (simp add: pow2_def power_int_def power_one_over inverse_eq_divide)

lemma pow2_pos [simp]: "0 < pow2 e"
  by (simp add: pow2_powi)

lemma pow2_add: "pow2 (a + b) = pow2 a * pow2 b"
  by (simp add: pow2_powi power_int_add)

lemma pow2_diff: "pow2 (a - b) = pow2 a / pow2 b"
  by (simp add: pow2_powi power_int_diff)

lemma pow2_mono: "a \<le> b \<Longrightarrow> pow2 a \<le> pow2 b"
  by (simp add: pow2_powi power_int_increasing)

lemma pow2_strict_mono: "a < b \<Longrightarrow> pow2 a < pow2 b"
  by (simp add: pow2_powi power_int_strict_increasing)

lemma pow2_less_imp: "pow2 a < pow2 b \<Longrightarrow> a < b"
  using pow2_mono [of b a] by (cases "a < b") simp_all

lemma pow2_nat: "0 \<le> e \<Longrightarrow> pow2 e = 2 ^ nat e"
  by (simp add: pow2_def)

lemma expo_bounds:
  assumes "0 < x"
  shows "pow2 (expo x) \<le> x" and "x < pow2 (expo x + 1)"
proof -
  obtain p q where pq: "quotient_of x = (p, q)"
    by (cases "quotient_of x")
  have q: "0 < q" using pq by (rule quotient_of_denom_pos)
  have x: "x = of_int p / of_int q" using pq by (rule quotient_of_div)
  have p: "0 < p"
    using assms q by (simp add: x zero_less_divide_iff)
  let ?bp = "bitlen p" and ?bq = "bitlen q"
  have bp: "2 ^ nat (?bp - 1) \<le> p" "p < 2 ^ nat ?bp" "1 \<le> ?bp"
    using bitlen_bounds [OF p] p bitlen_eq_zero_iff [of p] bitlen_nonneg [of p] by auto
  have bq: "2 ^ nat (?bq - 1) \<le> q" "q < 2 ^ nat ?bq" "1 \<le> ?bq"
    using bitlen_bounds [OF q] q bitlen_eq_zero_iff [of q] bitlen_nonneg [of q] by auto
  have P: "pow2 (?bp - 1) \<le> of_int p" "of_int p < pow2 ?bp"
    using bp by (simp_all add: pow2_nat)
  have Q: "pow2 (?bq - 1) \<le> of_int q" "of_int q < pow2 ?bq"
    using bq by (simp_all add: pow2_nat)
  have qpos: "(0::rat) < of_int q" using q by simp
  have up: "x < pow2 (?bp - ?bq + 1)"
  proof -
    have "of_int p * pow2 (?bq - 1) < pow2 ?bp * of_int q"
      using P(2) Q(1) qpos p by (intro mult_less_le_imp_less) simp_all
    then have "x * pow2 (?bq - 1) < pow2 ?bp"
      using qpos by (simp add: x field_simps)
    then have "x < pow2 ?bp / pow2 (?bq - 1)"
      by (simp add: pos_less_divide_eq)
    then show ?thesis
      by (simp add: pow2_diff [symmetric]) (simp add: algebra_simps)
  qed
  have lo: "pow2 (?bp - ?bq - 1) \<le> x"
  proof -
    have "pow2 (?bp - 1) * of_int q \<le> of_int p * pow2 ?bq"
      using P(1) Q(2) p q by (intro mult_mono) simp_all
    then have "pow2 (?bp - 1) / pow2 ?bq \<le> x"
      using qpos by (simp add: x field_simps)
    then show ?thesis
      by (simp add: pow2_diff [symmetric]) (simp add: algebra_simps)
  qed
  show "pow2 (expo x) \<le> x"
    using lo by (simp add: expo_def pq Let_def)
  show "x < pow2 (expo x + 1)"
    using up by (auto simp add: expo_def pq Let_def algebra_simps)
qed

lemma expo_unique:
  assumes "pow2 e \<le> x" "x < pow2 (e + 1)"
  shows "expo x = e"
proof -
  have x: "0 < x" using assms(1) pow2_pos [of e] by linarith
  have "pow2 (expo x) < pow2 (e + 1)" "pow2 e < pow2 (expo x + 1)"
    using expo_bounds [OF x] assms by linarith+
  then show ?thesis
    using pow2_less_imp [of "expo x" "e + 1"] pow2_less_imp [of e "expo x + 1"] by linarith
qed

lemma expo_mono:
  assumes "0 < x" "x \<le> y"
  shows "expo x \<le> expo y"
proof -
  have "pow2 (expo x) < pow2 (expo y + 1)"
    using expo_bounds [of x] expo_bounds [of y] assms by linarith
  then show ?thesis using pow2_less_imp [of "expo x" "expo y + 1"] by linarith
qed

lemma pow2_nonneg [simp]: "0 \<le> pow2 e"
  using pow2_pos [of e] by (rule less_imp_le)

lemma rne_range: "\<lfloor>y\<rfloor> \<le> rne y" "rne y \<le> \<lfloor>y\<rfloor> + 1"
  by (simp_all add: rne_def Let_def)

lemma rne_of_int [simp]: "rne (of_int n) = n"
  by (simp add: rne_def)

lemma rne_mono:
  assumes "x \<le> y"
  shows "rne x \<le> rne y"
proof (cases "\<lfloor>x\<rfloor> = \<lfloor>y\<rfloor>")
  case True
  have "x - of_int \<lfloor>y\<rfloor> \<le> y - of_int \<lfloor>y\<rfloor>" using assms by simp
  then show ?thesis
    by (auto simp add: rne_def Let_def True)
next
  case False
  then have "\<lfloor>x\<rfloor> < \<lfloor>y\<rfloor>"
    using floor_mono [OF assms] by linarith
  then show ?thesis
    using rne_range(2) [of x] rne_range(1) [of y] by linarith
qed

lemma rne_le_int: "x \<le> of_int n \<Longrightarrow> rne x \<le> n"
  using rne_mono [of x "of_int n"] by simp

lemma rne_ge_int: "of_int n \<le> x \<Longrightarrow> n \<le> rne x"
  using rne_mono [of "of_int n" x] by simp

lemma rne_error: "\<bar>of_int (rne y) - y\<bar> \<le> 1 / 2"
proof -
  have "of_int \<lfloor>y\<rfloor> \<le> y" "y < of_int \<lfloor>y\<rfloor> + 1"
    by linarith+
  then show ?thesis
    by (auto simp add: rne_def Let_def abs_le_iff)
qed

text \<open>The spacing of doubles around a positive rational.\<close>

lemma flp_nonneg: "0 \<le> x \<Longrightarrow> 0 \<le> flp x"
proof -
  assume "0 \<le> x"
  then have "0 \<le> rne (x / pow2 e)" for e
    by (intro rne_ge_int) (simp add: divide_nonneg_pos)
  then show ?thesis
    by (simp add: flp_def Let_def)
qed

lemma flp_mono:
  assumes "0 \<le> x" "x \<le> y"
  shows "flp x \<le> flp y"
proof (cases "x = 0")
  case True
  then show ?thesis using flp_nonneg [of y] assms by (simp add: flp_def)
next
  case False
  then have x: "0 < x" and y: "0 < y" using assms by simp_all
  let ?a = "max (expo x - 52) (- 1074)" and ?b = "max (expo y - 52) (- 1074)"
  have e: "expo x \<le> expo y" using expo_mono [OF x assms(2)] .
  have fx: "flp x = of_int (rne (x / pow2 ?a)) * pow2 ?a"
    using x by (simp add: flp_def Let_def)
  have fy: "flp y = of_int (rne (y / pow2 ?b)) * pow2 ?b"
    using y by (simp add: flp_def Let_def)
  show ?thesis
  proof (cases "?a = ?b")
    case True
    have "x / pow2 ?b \<le> y / pow2 ?b"
      using assms(2) by (intro divide_right_mono) simp_all
    then have "rne (x / pow2 ?b) \<le> rne (y / pow2 ?b)" by (rule rne_mono)
    then show ?thesis
      by (simp add: fx fy True)
  next
    case False
    then have ab: "?a < ?b" and b: "?b = expo y - 52" and lt: "expo x < expo y"
      using e by (auto simp add: max_def split: if_splits)
    have a0: "0 \<le> expo y - ?a" using ab b by linarith
    have "x < pow2 (expo y)"
      using expo_bounds(2) [OF x] pow2_mono [of "expo x + 1" "expo y"] lt by linarith
    then have "x / pow2 ?a \<le> pow2 (expo y) / pow2 ?a"
      by (intro divide_right_mono) simp_all
    also have "\<dots> = of_int (2 ^ nat (expo y - ?a))"
      using a0 by (simp add: pow2_diff [symmetric] pow2_nat)
    finally have "rne (x / pow2 ?a) \<le> 2 ^ nat (expo y - ?a)"
      by (rule rne_le_int)
    then have "of_int (rne (x / pow2 ?a)) \<le> (of_int (2 ^ nat (expo y - ?a)) :: rat)"
      by (simp only: of_int_le_iff)
    then have "flp x \<le> of_int (2 ^ nat (expo y - ?a)) * pow2 ?a"
      unfolding fx by (intro mult_right_mono) simp_all
    also have "\<dots> = pow2 (expo y)"
      using a0 by (simp add: pow2_nat [symmetric] pow2_add [symmetric])
    finally have 1: "flp x \<le> pow2 (expo y)" .
    have "of_int (2 ^ 52) = pow2 (expo y) / pow2 ?b"
      by (simp add: b pow2_diff [symmetric] pow2_nat)
    also have "\<dots> \<le> y / pow2 ?b"
      using expo_bounds(1) [OF y] by (intro divide_right_mono) simp_all
    finally have "2 ^ 52 \<le> rne (y / pow2 ?b)"
      by (rule rne_ge_int)
    then have "(of_int (2 ^ 52) :: rat) \<le> of_int (rne (y / pow2 ?b))"
      by (simp only: of_int_le_iff)
    then have "of_int (2 ^ 52) * pow2 ?b \<le> flp y"
      unfolding fy by (intro mult_right_mono) simp_all
    moreover have "of_int (2 ^ 52) * pow2 ?b = pow2 (expo y)"
      using pow2_add [of 52 "expo y - 52"] by (simp add: b pow2_nat)
    ultimately show ?thesis using 1 by linarith
  qed
qed

lemma fl_mono: "x \<le> y \<Longrightarrow> fl x \<le> fl y"
  using flp_mono [of x y] flp_mono [of "- y" "- x"] flp_nonneg [of y] flp_nonneg [of "- x"]
  by (auto simp add: fl_def)

lemma fl_nonneg: "0 \<le> x \<Longrightarrow> 0 \<le> fl x"
  by (simp add: fl_def flp_nonneg)

lemma fl_nonpos: "x \<le> 0 \<Longrightarrow> fl x \<le> 0"
  using flp_nonneg [of "- x"] by (auto simp add: fl_def flp_def)

section \<open>The stagger meter\<close>

lemma fl_100: "fl 100 = 100"
  by code_simp

lemma fl_le_100: "x \<le> 100 \<Longrightarrow> fl x \<le> 100"
  using fl_mono [of x 100] by (simp add: fl_100)

lemma decay_nonneg: "0 \<le> fl (STAGGER_DECAY_PER_SECOND / TICKS_PER_SECOND)"
  by (intro fl_nonneg) (simp add: STAGGER_DECAY_PER_SECOND_def TICKS_PER_SECOND_def)

lemma stagger_inv_state_steps:
  "stagger_inv (triggerVulnerability s)"
  "stagger_inv s \<Longrightarrow> stagger_inv (dealDamageToBoss d s)"
  "stagger_inv s \<Longrightarrow> stagger_inv (handlePlayerDeath s)"
  "stagger_inv s \<Longrightarrow> stagger_inv (executeAttack a s)"
  "stagger_inv s \<Longrightarrow> stagger_inv (processPlayerAttack s)"
  "stagger_inv s \<Longrightarrow> stagger_inv (processVulnerability s)"
  by (simp_all add: stagger_inv_def state_defs Let_def STAGGER_MAX_def)

lemma stagger_inv_update [simp]:
  "stagger_inv (s\<lparr>currentFrame := n\<rparr>) = stagger_inv s"
  "stagger_inv (s\<lparr>bossAttackHitProcessed := b\<rparr>) = stagger_inv s"
  "stagger_inv (s\<lparr>bossCurrentAttack := a\<rparr>) = stagger_inv s"
  "stagger_inv (s\<lparr>playerShieldZone := z\<rparr>) = stagger_inv s"
  "stagger_inv (s\<lparr>playerAttacking := b, playerAttackFrame := n\<rparr>) = stagger_inv s"
  "stagger_inv (s\<lparr>enabledAttacks := en\<rparr>) = stagger_inv s"
  "stagger_inv (s\<lparr>blocksPerformed := n\<rparr>) = stagger_inv s"
  "stagger_inv (s\<lparr>perfectParries := n\<rparr>) = stagger_inv s"
  by (simp_all add: stagger_inv_def)

lemma stagger_inv_handleBlock: "stagger_inv s \<Longrightarrow> stagger_inv (handleBlock s)"
proof -
  assume "stagger_inv s"
  then have "0 \<le> fl (bossStagger s + BLOCK_STAGGER)"
    by (intro fl_nonneg) (simp add: stagger_inv_def BLOCK_STAGGER_def)
  then show ?thesis
    by (simp add: handleBlock_def Let_def stagger_inv_def triggerVulnerability_def
        STAGGER_MAX_def)
qed

lemma stagger_inv_handleParry: "stagger_inv s \<Longrightarrow> stagger_inv (handleParry acc s)"
proof -
  assume s: "stagger_inv s"
  let ?g = "fl (PARRY_STAGGER * (if fl (9 / 10) < acc then 3 / 2 else 1))"
  have "0 \<le> ?g"
    by (intro fl_nonneg) (simp add: PARRY_STAGGER_def)
  then have "0 \<le> fl (bossStagger s + ?g)"
    using s by (intro fl_nonneg) (simp add: stagger_inv_def)
  then show ?thesis
    by (simp add: handleParry_def Let_def stagger_inv_def triggerVulnerability_def
        dealDamageToBoss_def STAGGER_MAX_def)
qed

lemma stagger_inv_staggerDecay: "stagger_inv s \<Longrightarrow> stagger_inv (staggerDecay s)"
proof -
  assume s: "stagger_inv s"
  have "fl (bossStagger s - fl (STAGGER_DECAY_PER_SECOND / TICKS_PER_SECOND)) \<le> 100"
    using s decay_nonneg by (intro fl_le_100) (simp add: stagger_inv_def STAGGER_MAX_def)
  then show ?thesis
    using s by (simp add: staggerDecay_def stagger_inv_def STAGGER_MAX_def)
qed

lemma stagger_inv_processAttackCollision:
  "stagger_inv s \<Longrightarrow> stagger_inv (processAttackCollision s)"
  by (cases "bossCurrentAttack s")
     (simp_all add: processAttackCollision_def Let_def stagger_inv_handleBlock
       stagger_inv_state_steps)

lemma stagger_inv_processBossAI:
  "stagger_inv (state e) \<Longrightarrow> stagger_inv (state (processBossAI e))"
  by (simp add: processBossAI_def randomAttack_def startBossAttack_def Let_def
      stagger_inv_state_steps split: list.splits option.splits prod.splits)

lemma stagger_inv_exec: "stagger_inv (state e) \<Longrightarrow> stagger_inv (state (exec c e))"
proof (cases c)
  case Tick
  assume s: "stagger_inv (state e)"
  have "stagger_inv (state (processBossAI
      (e\<lparr>state := (state e)\<lparr>currentFrame := currentFrame (state e) + 1\<rparr>\<rparr>)))"
    using s by (intro stagger_inv_processBossAI) simp
  then show ?thesis
    using s Tick
    by (simp add: tick_def Let_def stagger_inv_state_steps stagger_inv_staggerDecay
        stagger_inv_processAttackCollision)
next
  case (AttemptParry z acc)
  assume s: "stagger_inv (state e)"
  then show ?thesis
    using AttemptParry stagger_inv_handleParry [OF s, of acc]
    by (simp add: attemptParry_def Let_def split: AttackRef.splits)
qed (simp_all add: moveShield_def playerAttack_def setPracticeAttack_def forceAttack_def)

lemma stagger_inv_run: "stagger_inv (state e) \<Longrightarrow> stagger_inv (state (run cs e))"
  by (induction cs arbitrary: e) (simp_all add: stagger_inv_exec)

text \<open>
  Claim C2. In every state reached from construction by ticks and commands,
  \<open>0 \<le> bossStagger \<le> STAGGER_MAX = 100\<close>.
\<close>

theorem stagger_bounds:
  "0 \<le> bossStagger (getState (run cs (CombatSystem_new seed maxHP md now)))
   \<and> bossStagger (getState (run cs (CombatSystem_new seed maxHP md now))) \<le> STAGGER_MAX
   \<and> STAGGER_MAX = 100"
proof -
  have "stagger_inv (state (CombatSystem_new seed maxHP md now))"
    by (simp add: stagger_inv_def CombatSystem_new_def STAGGER_MAX_def)
  then have "stagger_inv (state (run cs (CombatSystem_new seed maxHP md now)))"
    by (rule stagger_inv_run)
  then show ?thesis by (simp add: stagger_inv_def getState_def STAGGER_MAX_def)
qed

section \<open>Rounding error, and a run that makes the boss vulnerable\<close>

lemma flp_error:
  assumes "0 \<le> x" "x < 128"
  shows "\<bar>flp x - x\<bar> \<le> 1 / 2 ^ 47"
proof (cases "x = 0")
  case True
  then show ?thesis by (simp add: flp_def)
next
  case False
  then have x: "0 < x" using assms by simp
  let ?e = "max (expo x - 52) (- 1074)"
  let ?u = "pow2 ?e"
  have "pow2 (expo x) < pow2 7"
    using expo_bounds(1) [OF x] assms(2) by (simp add: pow2_def)
  then have "expo x < 7" by (rule pow2_less_imp)
  then have "?e \<le> - 46" by simp
  then have "?u \<le> pow2 (- 46)" by (rule pow2_mono)
  then have u: "?u \<le> 1 / 2 ^ 46" by (simp add: pow2_def)
  have un: "?u \<noteq> 0"
    using pow2_pos [of ?e] by linarith
  have "flp x - x = (of_int (rne (x / ?u)) - x / ?u) * ?u"
    using x un by (simp add: flp_def Let_def field_simps)
  then have "\<bar>flp x - x\<bar> = \<bar>of_int (rne (x / ?u)) - x / ?u\<bar> * ?u"
    by (simp add: abs_mult)
  also have "\<dots> \<le> (1 / 2) * ?u"
    by (intro mult_right_mono rne_error) simp
  also have "\<dots> \<le> (1 / 2) * (1 / 2 ^ 46)"
    using u by simp
  finally show ?thesis by simp
qed

lemma fl_error:
  assumes "\<bar>x\<bar> < 128"
  shows "\<bar>fl x - x\<bar> \<le> 1 / 2 ^ 47"
  using flp_error [of x] flp_error [of "- x"] assms
  by (auto simp add: fl_def abs_if split: if_splits)

lemma decay_step_bounds:
  "1 / 128 \<le> fl (STAGGER_DECAY_PER_SECOND / TICKS_PER_SECOND)"
  "fl (STAGGER_DECAY_PER_SECOND / TICKS_PER_SECOND) \<le> 1 / 110"
  by code_simp+

lemma decayed_bounds:
  assumes "0 \<le> x" "x \<le> 100"
  shows "0 \<le> decayed x" "x - 1 / 100 \<le> decayed x" "decayed x \<le> x"
proof -
  let ?d = "fl (STAGGER_DECAY_PER_SECOND / TICKS_PER_SECOND)"
  have "\<bar>x - ?d\<bar> < 128"
    using assms decay_step_bounds by (simp add: abs_less_iff)
  then have "\<bar>fl (x - ?d) - (x - ?d)\<bar> \<le> 1 / 2 ^ 47"
    by (rule fl_error)
  then have "fl (x - ?d) - (x - ?d) \<le> 1 / 2 ^ 47 \<and> - (fl (x - ?d) - (x - ?d)) \<le> 1 / 2 ^ 47"
    by (simp only: abs_le_iff)
  moreover have "(1 :: rat) / 2 ^ 47 \<le> 1 / 1000000"
    by simp
  ultimately have b: "x - 1 / 100 \<le> fl (x - ?d)" "fl (x - ?d) \<le> x"
    using decay_step_bounds by linarith+
  show "0 \<le> decayed x" by (simp add: decayed_def)
  show "x - 1 / 100 \<le> decayed x" using b(1) by (simp add: decayed_def)
  show "decayed x \<le> x" using b(2) assms(1) by (simp add: decayed_def)
qed

lemma staggerDecay_decayed:
  "\<not> bossVulnerable s \<Longrightarrow> staggerDecay s = s\<lparr>bossStagger := decayed (bossStagger s)\<rparr>"
  by (simp add: staggerDecay_def decayed_def)

lemma calm_tick_flight:
  assumes "calm (Active a) el h lo hi e"
    and "h \<or> el + 1 - windupFrames a \<noteq> IMPACT_DELAY_FRAMES"
    and "el + 1 < windupFrames a + activeFrames a + recoveryFrames a"
  shows "calm (Active a) (el + 1) h (lo - 1 / 100) hi (tick e)"
proof -
  let ?s1 = "(state e)\<lparr>currentFrame := currentFrame (state e) + 1\<rparr>"
  let ?e1 = "e\<lparr>state := ?s1\<rparr>"
  have c: "mode (state e) = PRACTICE" "playerAlive (state e)" "\<not> playerAttacking (state e)"
    "\<not> bossVulnerable (state e)" "\<not> bossDesperation (state e)" "forcedAttackQueue e = []"
    "bossCurrentAttack (state e) = Active a"
    "currentFrame (state e) - bossAttackStartFrame (state e) = el"
    "bossAttackHitProcessed (state e) = h" "0 \<le> bossStagger (state e)"
    "lo \<le> bossStagger (state e)" "bossStagger (state e) \<le> hi" "hi \<le> 100"
    using assms(1) by (simp_all add: calm_def)
  have b: "processBossAI ?e1 = ?e1"
    using c(7) by (simp add: processBossAI_def)
  have k: "processAttackCollision ?s1 = ?s1"
    using c(7,8,9) assms(2,3) by (auto simp add: processAttackCollision_def Let_def)
  have p: "processPlayerAttack ?s1 = ?s1"
    using c(3) by (simp add: processPlayerAttack_def)
  have d: "staggerDecay ?s1 = ?s1\<lparr>bossStagger := decayed (bossStagger (state e))\<rparr>"
    using c(4) by (simp add: staggerDecay_decayed)
  have v: "processVulnerability (?s1\<lparr>bossStagger := x\<rparr>) = ?s1\<lparr>bossStagger := x\<rparr>" for x
    using c(4) by (simp add: processVulnerability_def)
  have t: "tick e = e\<lparr>state := ?s1\<lparr>bossStagger := decayed (bossStagger (state e))\<rparr>\<rparr>"
    using c(2) by (simp add: tick_def Let_def b k p d v)
  have x: "bossStagger (state e) \<le> 100" using c(12,13) by linarith
  show ?thesis
    using c decayed_bounds [OF c(10) x] by (simp add: t calm_def)
qed

lemma calm_ticks_flight:
  assumes "calm (Active a) el h lo hi e"
    and "h \<or> el + int n - windupFrames a < IMPACT_DELAY_FRAMES"
    and "el + int n < windupFrames a + activeFrames a + recoveryFrames a"
  shows "calm (Active a) (el + int n) h (lo - of_nat n / 100) hi (ticks n e)"
  using assms
proof (induction n arbitrary: e el lo)
  case 0
  then show ?case by simp
next
  case (Suc n)
  have "calm (Active a) (el + 1) h (lo - 1 / 100) hi (tick e)"
    using Suc.prems by (intro calm_tick_flight) auto
  then have "calm (Active a) (el + 1 + int n) h (lo - 1 / 100 - of_nat n / 100) hi
      (ticks n (tick e))"
    using Suc.prems by (intro Suc.IH) auto
  then show ?case
    by (simp add: algebra_simps add_divide_distrib)
qed

lemma calm_tick_clear:
  assumes "calm (Active a) el True lo hi e"
    and "windupFrames a + activeFrames a + recoveryFrames a \<le> el + 1"
  shows "calm Null (el + 1) True (lo - 1 / 100) hi (tick e)"
proof -
  let ?s1 = "(state e)\<lparr>currentFrame := currentFrame (state e) + 1\<rparr>"
  let ?e1 = "e\<lparr>state := ?s1\<rparr>"
  let ?s2 = "?s1\<lparr>bossCurrentAttack := Null\<rparr>"
  have c: "mode (state e) = PRACTICE" "playerAlive (state e)" "\<not> playerAttacking (state e)"
    "\<not> bossVulnerable (state e)" "\<not> bossDesperation (state e)" "forcedAttackQueue e = []"
    "bossCurrentAttack (state e) = Active a"
    "currentFrame (state e) - bossAttackStartFrame (state e) = el"
    "bossAttackHitProcessed (state e)" "0 \<le> bossStagger (state e)"
    "lo \<le> bossStagger (state e)" "bossStagger (state e) \<le> hi" "hi \<le> 100"
    using assms(1) by (simp_all add: calm_def)
  have b: "processBossAI ?e1 = ?e1"
    using c(7) by (simp add: processBossAI_def)
  have k: "processAttackCollision ?s1 = ?s2"
    using c(7,8,9) assms(2) by (auto simp add: processAttackCollision_def Let_def)
  have p: "processPlayerAttack ?s2 = ?s2"
    using c(3) by (simp add: processPlayerAttack_def)
  have d: "staggerDecay ?s2 = ?s2\<lparr>bossStagger := decayed (bossStagger (state e))\<rparr>"
    using c(4) by (simp add: staggerDecay_decayed)
  have v: "processVulnerability (?s2\<lparr>bossStagger := x\<rparr>) = ?s2\<lparr>bossStagger := x\<rparr>" for x
    using c(4) by (simp add: processVulnerability_def)
  have t: "tick e = e\<lparr>state := ?s2\<lparr>bossStagger := decayed (bossStagger (state e))\<rparr>\<rparr>"
    using c(2) by (simp add: tick_def Let_def b k p d v)
  have x: "bossStagger (state e) \<le> 100" using c(12,13) by linarith
  show ?thesis
    using c decayed_bounds [OF c(10) x] by (simp add: t calm_def)
qed

lemma calm_force_tick:
  assumes "calm Null el h lo hi e"
  shows "calm (Active bash_center) 0 False (lo - 1 / 100) hi
     (tick (forceAttack ''bash_center'' e))"
proof -
  let ?q = "e\<lparr>forcedAttackQueue := [''bash_center'']\<rparr>"
  let ?s1 = "(state e)\<lparr>currentFrame := currentFrame (state e) + 1\<rparr>"
  let ?s2 = "?s1\<lparr>bossCurrentAttack := Active bash_center,
      bossAttackStartFrame := currentFrame (state e) + 1, bossAttackHitProcessed := False\<rparr>"
  have c: "mode (state e) = PRACTICE" "playerAlive (state e)" "\<not> playerAttacking (state e)"
    "\<not> bossVulnerable (state e)" "\<not> bossDesperation (state e)" "forcedAttackQueue e = []"
    "bossCurrentAttack (state e) = Null" "0 \<le> bossStagger (state e)"
    "lo \<le> bossStagger (state e)" "bossStagger (state e) \<le> hi" "hi \<le> 100"
    using assms(1) by (simp_all add: calm_def)
  have q: "forceAttack ''bash_center'' e = ?q"
    using c(1,6) by (simp add: forceAttack_def)
  have b: "processBossAI (?q\<lparr>state := ?s1\<rparr>) = e\<lparr>state := ?s2\<rparr>"
    using c(4,6,7)
    by (simp add: processBossAI_def find_bash_center executeAttack_def Let_def)
  have k: "processAttackCollision ?s2 = ?s2"
    by (simp add: processAttackCollision_def Let_def attack_facts IMPACT_DELAY_FRAMES_def)
  have p: "processPlayerAttack ?s2 = ?s2"
    using c(3) by (simp add: processPlayerAttack_def)
  have d: "staggerDecay ?s2 = ?s2\<lparr>bossStagger := decayed (bossStagger (state e))\<rparr>"
    using c(4) by (simp add: staggerDecay_decayed)
  have v: "processVulnerability (?s2\<lparr>bossStagger := x\<rparr>) = ?s2\<lparr>bossStagger := x\<rparr>" for x
    using c(4) by (simp add: processVulnerability_def)
  have t: "tick ?q = e\<lparr>state := ?s2\<lparr>bossStagger := decayed (bossStagger (state e))\<rparr>\<rparr>"
    using c(2) by (simp add: tick_def Let_def b k p d v)
  have x: "bossStagger (state e) \<le> 100" using c(10,11) by linarith
  show ?thesis
    using c decayed_bounds [OF c(8) x] by (simp add: q t calm_def)
qed

lemma perfect_parry_gain:
  "fl (9 / 10) < 1" "fl (PARRY_STAGGER * 3 / 2) = 75 / 2"
  by code_simp+

lemma perfect_parry_bounds:
  assumes "0 \<le> x" "x \<le> 90"
  shows "x + 37 \<le> fl (x + 75 / 2)" "fl (x + 75 / 2) \<le> x + 38"
proof -
  have "\<bar>x + 75 / 2\<bar> < 128"
    using assms by (simp add: abs_less_iff)
  then have "\<bar>fl (x + 75 / 2) - (x + 75 / 2)\<bar> \<le> 1 / 2 ^ 47"
    by (rule fl_error)
  then have "fl (x + 75 / 2) - (x + 75 / 2) \<le> 1 / 2 ^ 47
      \<and> - (fl (x + 75 / 2) - (x + 75 / 2)) \<le> 1 / 2 ^ 47"
    by (simp only: abs_le_iff)
  moreover have "(1 :: rat) / 2 ^ 47 \<le> 1 / 1000000"
    by simp
  ultimately show "x + 37 \<le> fl (x + 75 / 2)" "fl (x + 75 / 2) \<le> x + 38"
    by linarith+
qed

lemma attemptParry_perfect:
  assumes "calm (Active bash_center) el False lo hi e" "55 \<le> el" "el < 140"
  shows "state (snd (attemptParry ZONE_CENTER 1 e)) =
     (if STAGGER_MAX \<le> fl (bossStagger (state e) + 75 / 2)
      then triggerVulnerability ((state e)\<lparr>perfectParries := perfectParries (state e) + 1,
             bossStagger := fl (bossStagger (state e) + 75 / 2)\<rparr>)
      else (state e)\<lparr>perfectParries := perfectParries (state e) + 1,
             bossStagger := fl (bossStagger (state e) + 75 / 2)\<rparr>)
       \<lparr>bossAttackHitProcessed := True\<rparr>"
    and "forcedAttackQueue (snd (attemptParry ZONE_CENTER 1 e)) = forcedAttackQueue e"
proof -
  have d: "bossDesperation (triggerVulnerability s) = bossDesperation s" for s
    by (simp add: triggerVulnerability_def)
  show "state (snd (attemptParry ZONE_CENTER 1 e)) =
     (if STAGGER_MAX \<le> fl (bossStagger (state e) + 75 / 2)
      then triggerVulnerability ((state e)\<lparr>perfectParries := perfectParries (state e) + 1,
             bossStagger := fl (bossStagger (state e) + 75 / 2)\<rparr>)
      else (state e)\<lparr>perfectParries := perfectParries (state e) + 1,
             bossStagger := fl (bossStagger (state e) + 75 / 2)\<rparr>)
       \<lparr>bossAttackHitProcessed := True\<rparr>"
    using assms
    by (simp add: calm_def attemptParry_def Let_def attack_facts handleParry_def
        perfect_parry_gain d)
  show "forcedAttackQueue (snd (attemptParry ZONE_CENTER 1 e)) = forcedAttackQueue e"
    using assms
    by (simp add: calm_def attemptParry_def Let_def attack_facts)
qed

lemma calm_parry:
  assumes "calm (Active bash_center) el False lo hi e" "55 \<le> el" "el < 140"
    and "hi + 38 < 100"
  shows "calm (Active bash_center) el True (lo + 37) (hi + 38)
     (snd (attemptParry ZONE_CENTER 1 e))"
proof -
  have c: "0 \<le> bossStagger (state e)" "lo \<le> bossStagger (state e)"
    "bossStagger (state e) \<le> hi"
    using assms(1) by (simp_all add: calm_def)
  have x: "bossStagger (state e) \<le> 90" using c(3) assms(4) by linarith
  have b: "bossStagger (state e) + 37 \<le> fl (bossStagger (state e) + 75 / 2)"
    "fl (bossStagger (state e) + 75 / 2) \<le> bossStagger (state e) + 38"
    using perfect_parry_bounds [OF c(1) x] by simp_all
  then have n: "\<not> STAGGER_MAX \<le> fl (bossStagger (state e) + 75 / 2)"
    using c(3) assms(4) by (simp add: STAGGER_MAX_def)
  show ?thesis
    using assms(1,4) b c attemptParry_perfect [OF assms(1,2,3)]
    by (simp add: n calm_def)
qed

lemma calm_parry_trigger:
  assumes "calm (Active bash_center) el False lo hi e" "55 \<le> el" "el < 140"
    and "63 \<le> lo" "hi \<le> 90"
  shows "bossVulnerable (state (snd (attemptParry ZONE_CENTER 1 e)))"
proof -
  have c: "0 \<le> bossStagger (state e)" "lo \<le> bossStagger (state e)"
    "bossStagger (state e) \<le> hi"
    using assms(1) by (simp_all add: calm_def)
  have x: "bossStagger (state e) \<le> 90" using c(3) assms(5) by linarith
  have "bossStagger (state e) + 37 \<le> fl (bossStagger (state e) + 75 / 2)"
    using perfect_parry_bounds [OF c(1) x] by simp
  then have n: "STAGGER_MAX \<le> fl (bossStagger (state e) + 75 / 2)"
    using c(2) assms(4) by (simp add: STAGGER_MAX_def)
  show ?thesis
    using attemptParry_perfect(1) [OF assms(1,2,3)]
    by (simp add: n triggerVulnerability_def)
qed

lemma calm_weaken:
  "calm A el h lo hi e \<Longrightarrow> lo' \<le> lo \<Longrightarrow> calm A el h lo' hi e"
  by (simp add: calm_def)

text \<open>One round: force \<open>bash_center\<close>, tick 56 times, parry, tick to the end of the attack.\<close>

lemma calm_round:
  assumes "calm Null el h lo hi e" "hi + 38 < 100"
  shows "\<exists>el' h'. calm Null el' h' (lo + 35) (hi + 38)
     (ticks 115 (snd (attemptParry ZONE_CENTER 1
        (ticks 55 (tick (forceAttack ''bash_center'' e))))))"
proof -
  let ?e1 = "tick (forceAttack ''bash_center'' e)"
  let ?e2 = "ticks 55 ?e1"
  let ?e3 = "snd (attemptParry ZONE_CENTER 1 ?e2)"
  let ?e4 = "ticks 114 ?e3"
  have hi: "hi \<le> 100" using assms(1) by (simp add: calm_def)
  have 1: "calm (Active bash_center) 0 False (lo - 1 / 100) hi ?e1"
    using assms(1) by (rule calm_force_tick)
  have "calm (Active bash_center) (0 + int 55) False (lo - 1 / 100 - of_nat 55 / 100) hi ?e2"
    using 1 by (rule calm_ticks_flight) (simp_all add: attack_facts IMPACT_DELAY_FRAMES_def)
  then have 2: "calm (Active bash_center) 55 False (lo - 56 / 100) hi ?e2"
    by simp
  have 3: "calm (Active bash_center) 55 True (lo - 56 / 100 + 37) (hi + 38) ?e3"
    using 2 _ _ assms(2) by (rule calm_parry) simp_all
  have "calm (Active bash_center) (55 + int 114) True
      (lo - 56 / 100 + 37 - of_nat 114 / 100) (hi + 38) ?e4"
    using 3 by (rule calm_ticks_flight) (simp_all add: attack_facts)
  then have 4: "calm (Active bash_center) 169 True (lo + 37 - 170 / 100) (hi + 38) ?e4"
    by (simp add: algebra_simps)
  have 5: "calm Null (169 + 1) True (lo + 37 - 170 / 100 - 1 / 100) (hi + 38) (tick ?e4)"
    using 4 by (rule calm_tick_clear) (simp add: attack_facts)
  have "ticks 115 ?e3 = tick ?e4"
    using ticks_Suc_end [of 114 ?e3] by simp
  then have "calm Null 170 True (lo + 35) (hi + 38) (ticks 115 ?e3)"
    using calm_weaken [OF 5, of "lo + 35"] by simp
  then show ?thesis by blast
qed

lemma run_append: "run (xs @ ys) e = run ys (run xs e)"
  by (induction xs arbitrary: e) simp_all

lemma run_replicate_Tick: "run (replicate n Tick) e = ticks n e"
  by (induction n arbitrary: e) simp_all

lemma run_parry_opening:
  "run parry_opening e
     = snd (attemptParry ZONE_CENTER 1 (ticks 55 (tick (forceAttack ''bash_center'' e))))"
proof -
  have "ticks 56 e' = ticks 55 (tick e')" for e'
    using ticks_add [of 1 55 e'] by simp
  then show ?thesis
    by (simp add: parry_opening_def run_append run_replicate_Tick)
qed

lemma run_parry_round:
  "run parry_round e = ticks 115 (snd (attemptParry ZONE_CENTER 1
     (ticks 55 (tick (forceAttack ''bash_center'' e)))))"
  by (simp add: parry_round_def run_append run_replicate_Tick run_parry_opening)

text \<open>
  The run \<open>stagger_cmds\<close> ends with a perfect parry on a calm engine whose stagger is
  at least 69.44.
\<close>

lemma stagger_cmds_calm:
  "\<exists>e. calm (Active bash_center) 55 False (6944 / 100) 76 e
     \<and> run stagger_cmds (CombatSystem_new seed maxHP PRACTICE now)
         = snd (attemptParry ZONE_CENTER 1 e)"
proof -
  let ?e0 = "CombatSystem_new seed maxHP PRACTICE now"
  let ?e1 = "run parry_round ?e0"
  let ?e2 = "run parry_round ?e1"
  let ?e3 = "tick (forceAttack ''bash_center'' ?e2)"
  have 0: "calm Null 0 False 0 0 ?e0"
    by (simp add: calm_def CombatSystem_new_def)
  obtain el1 h1 where 1: "calm Null el1 h1 (0 + 35) (0 + 38) ?e1"
    using calm_round [OF 0] by (auto simp add: run_parry_round)
  obtain el2 h2 where 2: "calm Null el2 h2 (0 + 35 + 35) (0 + 38 + 38) ?e2"
    using calm_round [OF 1] by (auto simp add: run_parry_round)
  have 3: "calm (Active bash_center) 0 False (0 + 35 + 35 - 1 / 100) (0 + 38 + 38) ?e3"
    using 2 by (rule calm_force_tick)
  have "calm (Active bash_center) (0 + int 55) False
      (0 + 35 + 35 - 1 / 100 - of_nat 55 / 100) (0 + 38 + 38) (ticks 55 ?e3)"
    using 3 by (rule calm_ticks_flight) (simp_all add: attack_facts IMPACT_DELAY_FRAMES_def)
  then have 4: "calm (Active bash_center) 55 False (6944 / 100) 76 (ticks 55 ?e3)"
    by simp
  have "run stagger_cmds ?e0 = snd (attemptParry ZONE_CENTER 1 (ticks 55 ?e3))"
    by (simp add: stagger_cmds_def run_append run_parry_opening)
  then show ?thesis
    using 4 by blast
qed

lemma stagger_cmds_vulnerable:
  "bossVulnerable (state (run stagger_cmds (CombatSystem_new seed maxHP PRACTICE now)))"
proof -
  obtain e where e: "calm (Active bash_center) 55 False (6944 / 100) 76 e"
      "run stagger_cmds (CombatSystem_new seed maxHP PRACTICE now)
         = snd (attemptParry ZONE_CENTER 1 e)"
    using stagger_cmds_calm by blast
  have "bossVulnerable (state (snd (attemptParry ZONE_CENTER 1 e)))"
    using e(1) by (rule calm_parry_trigger) simp_all
  then show ?thesis
    by (simp only: e(2))
qed

theorem vulnerable_no_attack_witness:
  "bossVulnerable (getState (run stagger_cmds (CombatSystem_new 0 10 PRACTICE 0)))
   \<and> bossCurrentAttack (getState (run stagger_cmds (CombatSystem_new 0 10 PRACTICE 0))) = Null"
  using vulnerable_no_attack [of stagger_cmds 0 10 PRACTICE 0] stagger_cmds_vulnerable
  by (simp add: getState_def)

section \<open>The generator on integer seeds\<close>

lemma and_mask31: "(k :: int) AND 2147483647 = k mod 2 ^ 31"
proof -
  have "(2147483647 :: int) = mask 31"
    by (simp add: mask_eq_exp_minus_1)
  then show ?thesis
    by (simp only: take_bit_eq_mask [symmetric] take_bit_eq_mod)
qed

lemma mod_2_31_shift: "(z - 2 ^ 32) mod 2 ^ 31 = z mod (2 ^ 31 :: int)"
proof -
  have "(z - 2 ^ 32) mod 2 ^ 31 = (z - 2 ^ 32 mod 2 ^ 31) mod (2 ^ 31 :: int)"
    by (simp only: mod_diff_right_eq)
  then show ?thesis by simp
qed

lemma ToInt32_low_bits: "ToInt32 x AND 2147483647 = trunc x mod 2 ^ 31"
proof -
  have a: "(trunc x mod 2 ^ 32) mod 2 ^ 31 = trunc x mod (2 ^ 31 :: int)"
    by (rule mod_mod_cancel) simp
  show ?thesis
  proof (cases "2 ^ 31 \<le> trunc x mod 2 ^ 32")
    case True
    then have "ToInt32 x = trunc x mod 2 ^ 32 - 2 ^ 32"
      by (simp only: ToInt32_def Let_def if_True)
    then show ?thesis
      by (simp only: and_mask31 mod_2_31_shift a)
  next
    case False
    then have "ToInt32 x = trunc x mod 2 ^ 32"
      by (simp only: ToInt32_def Let_def if_False)
    then show ?thesis
      by (simp only: and_mask31 a)
  qed
qed

text \<open>Rounding an integer: exact below \<open>2 ^ 53\<close>, an even integer from there on.\<close>

lemma flp_int:
  assumes "0 < k"
  shows "\<exists>m. flp (of_int k) = of_int m \<and> 0 < m
     \<and> (k < 2 ^ 53 \<longrightarrow> m = k) \<and> (2 ^ 53 \<le> k \<longrightarrow> even m \<and> 2 ^ 53 \<le> m)"
proof -
  let ?x = "of_int k :: rat"
  let ?e = "expo ?x"
  have x: "0 < ?x" using assms by simp
  have "pow2 0 \<le> ?x" using assms by (simp add: pow2_def)
  then have "pow2 0 < pow2 (?e + 1)" using expo_bounds(2) [OF x] by linarith
  then have e0: "0 \<le> ?e" using pow2_less_imp [of 0 "?e + 1"] by linarith
  then have u: "max (?e - 52) (- 1074) = ?e - 52" by simp
  have f: "flp ?x = of_int (rne (?x / pow2 (?e - 52))) * pow2 (?e - 52)"
    using x by (simp add: flp_def Let_def u)
  show ?thesis
  proof (cases "k < 2 ^ 53")
    case True
    then have "?x < pow2 53" by (simp add: pow2_def)
    then have "pow2 ?e < pow2 53" using expo_bounds(1) [OF x] by linarith
    then have e: "?e \<le> 52" using pow2_less_imp [of ?e 53] by linarith
    have p: "pow2 (?e - 52) = 1 / 2 ^ nat (52 - ?e)"
      using e e0 by (cases "?e = 52") (simp_all add: pow2_def)
    have "?x / pow2 (?e - 52) = of_int (k * 2 ^ nat (52 - ?e))"
      by (simp add: p)
    then have "rne (?x / pow2 (?e - 52)) = k * 2 ^ nat (52 - ?e)"
      by (simp only: rne_of_int)
    then have "flp ?x = of_int k"
      by (simp add: f p)
    then show ?thesis using True assms by auto
  next
    case False
    then have k: "2 ^ 53 \<le> k" by simp
    then have "pow2 53 \<le> ?x"
      by (simp add: pow2_def)
    then have "pow2 53 < pow2 (?e + 1)" using expo_bounds(2) [OF x] by linarith
    then have e: "53 \<le> ?e" using pow2_less_imp [of 53 "?e + 1"] by linarith
    have p: "pow2 (?e - 52) = of_int (2 ^ nat (?e - 52))"
      using e by (simp add: pow2_def)
    let ?m = "rne (?x / pow2 (?e - 52)) * 2 ^ nat (?e - 52)"
    have m: "flp ?x = of_int ?m"
      by (simp add: f p)
    have ev: "even ?m"
      using e by simp
    have "flp (of_int (2 ^ 53)) \<le> flp ?x"
      using k by (intro flp_mono) simp_all
    moreover have "flp (of_int (2 ^ 53)) = of_int (2 ^ 53)"
      by code_simp
    ultimately have "(of_int (2 ^ 53) :: rat) \<le> of_int ?m"
      using m by simp
    then have g: "2 ^ 53 \<le> ?m"
      by (simp only: of_int_le_iff)
    have "(0 :: int) < 2 ^ 53" by simp
    then have "0 < ?m" using g by (rule less_le_trans)
    then show ?thesis
      using m ev g False by blast
  qed
qed

lemma fl_int:
  "\<exists>m. fl (of_int k) = of_int m \<and> (\<bar>k\<bar> < 2 ^ 53 \<longrightarrow> m = k)
     \<and> (2 ^ 53 \<le> \<bar>k\<bar> \<longrightarrow> even m \<and> 2 ^ 53 \<le> \<bar>m\<bar>)"
proof (cases "k = 0")
  case True
  then show ?thesis by (simp add: fl_def flp_def)
next
  case False
  show ?thesis
  proof (cases "0 < k")
    case True
    from flp_int [OF True] obtain m where "flp (of_int k) = of_int m" "0 < m"
      "k < 2 ^ 53 \<longrightarrow> m = k" "2 ^ 53 \<le> k \<longrightarrow> even m \<and> 2 ^ 53 \<le> m"
      by blast
    then show ?thesis
      using True by (intro exI [of _ m]) (simp add: fl_def)
  next
    case neg: False
    then have n: "0 < - k" using False by simp
    from flp_int [OF n] obtain m where "flp (of_int (- k)) = of_int m" "0 < m"
      "- k < 2 ^ 53 \<longrightarrow> m = - k" "2 ^ 53 \<le> - k \<longrightarrow> even m \<and> 2 ^ 53 \<le> m"
      by blast
    then show ?thesis
      using n by (intro exI [of _ "- m"]) (auto simp add: fl_def)
  qed
qed

text \<open>
  The exact congruential step reaches the state \<open>2 ^ 31 - 1\<close> only from states congruent
  to 230538014 modulo \<open>2 ^ 31\<close>, and for those the product exceeds \<open>2 ^ 53\<close>.
\<close>

lemma lcg_no_all_ones:
  assumes "\<bar>s * 1103515245\<bar> < (2 :: int) ^ 53"
  shows "(s * 1103515245 + 12345) mod 2 ^ 31 \<noteq> 2 ^ 31 - 1"
proof
  assume h: "(s * 1103515245 + 12345) mod 2 ^ 31 = 2 ^ 31 - 1"
  have s0: "(230538014 * 1103515245 + 12345) mod 2 ^ 31 = (2 ^ 31 - 1 :: int)"
    by simp
  have "(s * 1103515245 + 12345) mod 2 ^ 31 = (230538014 * 1103515245 + 12345) mod (2 ^ 31 :: int)"
    using h s0 by simp
  then have "(2 ^ 31 :: int) dvd (s * 1103515245 + 12345) - (230538014 * 1103515245 + 12345)"
    by (simp only: mod_eq_dvd_iff)
  moreover have "(s * 1103515245 + 12345) - (230538014 * 1103515245 + 12345)
      = 1103515245 * (s - 230538014)"
    by (simp add: algebra_simps)
  ultimately have d: "(2 ^ 31 :: int) dvd 1103515245 * (s - 230538014)"
    by (simp only:)
  have "coprime (2 :: int) 1103515245"
    by (simp add: coprime_left_2_iff_odd)
  then have "coprime (2 ^ 31 :: int) 1103515245"
    by (simp only: coprime_power_left_iff simp_thms)
  then have dv: "(2 ^ 31 :: int) dvd s - 230538014"
    using d by (simp only: coprime_dvd_mult_right_iff)
  have "\<bar>s\<bar> * 1103515245 < 9007199254740992"
    using assms by (simp add: abs_mult)
  then have b: "\<bar>s\<bar> \<le> 8162278" by linarith
  then have nz: "s - 230538014 \<noteq> 0" and lt: "\<bar>s - 230538014\<bar> < 2147483648"
    by linarith+
  have "\<bar>2 ^ 31 :: int\<bar> \<le> \<bar>s - 230538014\<bar>"
    using nz dv by (rule dvd_imp_le_int)
  then show False using lt by simp
qed

lemma rng_state_int:
  "\<exists>t. rng_state (of_int s) = of_int t \<and> 0 \<le> t \<and> t \<le> 2147483646"
proof -
  obtain m1 where m1: "fl (of_int (s * 1103515245)) = of_int m1"
      "\<bar>s * 1103515245\<bar> < 2 ^ 53 \<longrightarrow> m1 = s * 1103515245"
      "2 ^ 53 \<le> \<bar>s * 1103515245\<bar> \<longrightarrow> even m1 \<and> 2 ^ 53 \<le> \<bar>m1\<bar>"
    using fl_int [of "s * 1103515245"] by blast
  obtain m2 where m2: "fl (of_int (m1 + 12345)) = of_int m2"
      "\<bar>m1 + 12345\<bar> < 2 ^ 53 \<longrightarrow> m2 = m1 + 12345"
      "2 ^ 53 \<le> \<bar>m1 + 12345\<bar> \<longrightarrow> even m2 \<and> 2 ^ 53 \<le> \<bar>m2\<bar>"
    using fl_int [of "m1 + 12345"] by blast
  have p: "fl (of_int s * 1103515245) = of_int m1"
    using m1(1) by simp
  have x: "fl (of_int m1 + 12345) = of_int m2"
    using m2(1) by simp
  have r: "rng_state (of_int s) = 0 \<or> rng_state (of_int s) = of_int (m2 mod 2 ^ 31)"
    by (simp add: rng_state_def Let_def p x ToInt32_low_bits trunc_def)
  have n: "m2 mod 2 ^ 31 \<noteq> 2 ^ 31 - 1"
  proof
    assume h: "m2 mod 2 ^ 31 = 2 ^ 31 - 1"
    have "odd (m2 mod 2 ^ 31)" by (simp only: h) simp
    then have o: "odd m2"
      using dvd_mod_iff [of 2 "2 ^ 31" m2] by simp
    then have q: "\<bar>m1 + 12345\<bar> < 2 ^ 53" and e: "m2 = m1 + 12345"
      using m2(2,3) by (auto simp add: not_le [symmetric])
    show False
    proof (cases "\<bar>s * 1103515245\<bar> < 2 ^ 53")
      case True
      then have "m1 = s * 1103515245" using m1(2) by simp
      then show False
        using lcg_no_all_ones [OF True] h e by simp
    next
      case False
      then have b: "2 ^ 53 \<le> \<bar>m1\<bar>" using m1(3) by simp
      then have "- 9007199254740992 - 12345 < m1 \<and> m1 \<le> - 9007199254740992"
        using q by simp linarith
      then have j: "0 < m2 + 9007199254740992 \<and> m2 + 9007199254740992 \<le> 12345"
        using e by linarith
      have "(m2 + 4194304 * 2 ^ 31) mod 2 ^ 31 = m2 mod (2 ^ 31 :: int)"
        by (simp only: mod_mult_self1)
      then have "m2 mod 2 ^ 31 = (m2 + 9007199254740992) mod 2 ^ 31"
        by simp
      also have "\<dots> = m2 + 9007199254740992"
        using j by simp
      finally show False using h j by simp
    qed
  qed
  have "0 \<le> m2 mod 2 ^ 31 \<and> m2 mod 2 ^ 31 < (2 ^ 31 :: int)"
    by simp
  then have "0 \<le> m2 mod 2 ^ 31 \<and> m2 mod 2 ^ 31 \<le> 2147483646"
    using n by simp
  then show ?thesis
    using r by (auto intro: exI [of _ 0])
qed

lemma rng_value_int:
  assumes "0 \<le> t" "t \<le> 2147483646"
  shows "0 \<le> rng_value (of_int t)" "rng_value (of_int t) < 1"
proof -
  show "0 \<le> rng_value (of_int t)"
    using assms(1) by (simp add: rng_value_def fl_nonneg)
  have "fl (of_int t / 2147483647) \<le> fl (2147483646 / 2147483647)"
    using assms(2) by (intro fl_mono) simp
  moreover have "fl (2147483646 / 2147483647) < 1"
    by code_simp
  ultimately show "rng_value (of_int t) < 1"
    by (simp add: rng_value_def)
qed

text \<open>
  Claim C9. The seed of an engine is an integer. For every integer seed, every value that
  the seeded generator produces lies in \<open>[0, 1)\<close>: it is at least 0 and strictly less
  than 1. The rounding of the product keeps every state an integer below \<open>2 ^ 31 - 1\<close>.
\<close>

theorem rng_stream_int_seed:
  "v \<in> set (rng_stream n (createSeededRandom (of_int seed))) \<Longrightarrow> 0 \<le> v \<and> v < 1"
  unfolding createSeededRandom_def
proof (induction n arbitrary: seed)
  case 0
  then show ?case by simp
next
  case (Suc n)
  obtain t where t: "rng_state (of_int seed) = of_int t" "0 \<le> t" "t \<le> 2147483646"
    using rng_state_int [of seed] by blast
  have "v = rng_value (of_int t) \<or> v \<in> set (rng_stream n (of_int t))"
    using Suc.prems by (simp add: rng_def Let_def t(1))
  then show ?case
    using rng_value_int [OF t(2,3)] Suc.IH [of t] by blast
qed

text \<open>The first value of the stream of seed 0.\<close>

theorem rng_stream_int_seed_witness:
  "fst (rng 0) \<in> set (rng_stream 2 (createSeededRandom (of_int 0)))
   \<and> fst (rng 0) = fl (12345 / 2147483647) \<and> 0 \<le> fst (rng 0) \<and> fst (rng 0) < 1"
proof -
  have "fst (rng 0) \<in> set (rng_stream 2 (createSeededRandom (of_int 0)))"
    by (simp add: numeral_2_eq_2 createSeededRandom_def)
  moreover have "fst (rng 0) = fl (12345 / 2147483647)"
    by (simp add: rng_def Let_def rng_seed_0(1) rng_value_def)
  ultimately show ?thesis
    using rng_stream_int_seed [of "fst (rng 0)" 2 0] by simp
qed

section \<open>The age of an unprocessed hit\<close>

lemma catalog_windup: "a \<in> set RUST_WARDEN_ATTACKS \<Longrightarrow> 90 \<le> windupFrames a"
  by (auto simp add: RUST_WARDEN_ATTACKS_def)

lemma flight_inv_executeAttack:
  "(\<forall>a. A = Active a \<longrightarrow> a \<in> set RUST_WARDEN_ATTACKS) \<Longrightarrow> flight_inv 1 (executeAttack A s)"
proof (cases A)
  case (Active a)
  assume "\<forall>a. A = Active a \<longrightarrow> a \<in> set RUST_WARDEN_ATTACKS"
  then have a: "a \<in> set RUST_WARDEN_ATTACKS" using Active by simp
  then show ?thesis
    using catalog_windup [OF a] Active
    by (simp add: flight_inv_def executeAttack_def IMPACT_DELAY_FRAMES_def)
qed (simp_all add: flight_inv_def executeAttack_def)

lemma flight_inv_startBossAttack:
  "flight_inv 1 (state (startBossAttack e)) \<or> state (startBossAttack e) = state e"
proof -
  let ?av = "filter (\<lambda>a. mode (state e) = STANDARD \<or> id_attack a \<in> enabledAttacks (state e))
      RUST_WARDEN_ATTACKS"
  show ?thesis
  proof (cases "length ?av = 0")
    case True
    then show ?thesis by (simp add: startBossAttack_def Let_def)
  next
    case False
    obtain r st' where rng: "rng (rngState e) = (r, st')"
      by (cases "rng (rngState e)")
    let ?i = "\<lfloor>fl (r * of_nat (length ?av))\<rfloor>"
    let ?c = "if 0 \<le> ?i \<and> ?i < int (length ?av) then Active (?av ! nat ?i) else Undefined"
    have "?av ! nat ?i \<in> set RUST_WARDEN_ATTACKS" if "0 \<le> ?i" "?i < int (length ?av)"
    proof -
      have "nat ?i < length ?av" using that by linarith
      then have "?av ! nat ?i \<in> set ?av" by (rule nth_mem)
      then show ?thesis by simp
    qed
    then have "\<forall>a. ?c = Active a \<longrightarrow> a \<in> set RUST_WARDEN_ATTACKS"
      by auto
    then have "flight_inv 1 (executeAttack ?c (state e))"
      by (rule flight_inv_executeAttack)
    moreover have "state (startBossAttack e) = executeAttack ?c (state e)"
      using False rng by (simp add: startBossAttack_def Let_def)
    ultimately show ?thesis by simp
  qed
qed

lemma flight_inv_processBossAI:
  assumes "flight_inv 1 (state e)"
  shows "flight_inv 1 (state (processBossAI e))"
proof -
  have s: "flight_inv 1 (state (startBossAttack e')) \<or> state (startBossAttack e') = state e'" for e'
    by (rule flight_inv_startBossAttack)
  have r: "state e' = state e \<Longrightarrow> flight_inv 1 (state (randomAttack e'))" for e'
    using assms s [of "e'\<lparr>rngState := snd (rng (rngState e'))\<rparr>"]
    by (auto simp add: randomAttack_def Let_def split: prod.splits)
  have f: "find P RUST_WARDEN_ATTACKS = Some a \<Longrightarrow> a \<in> set RUST_WARDEN_ATTACKS" for P a
    by (auto simp add: find_Some_iff)
  show ?thesis
    using assms r f
    by (auto simp add: processBossAI_def Let_def flight_inv_executeAttack
        split: list.splits option.splits)
qed

lemma flight_inv_processAttackCollision:
  "flight_inv 1 s \<Longrightarrow> flight_inv 0 (processAttackCollision s)"
  by (cases "bossCurrentAttack s")
     (auto simp add: flight_inv_def processAttackCollision_def Let_def handleBlock_def
       handlePlayerDeath_def triggerVulnerability_def)

lemma flight_inv_rest:
  "flight_inv k (processPlayerAttack s) = flight_inv k s"
  "flight_inv k (staggerDecay s) = flight_inv k s"
  "flight_inv k (processVulnerability s) = flight_inv k s"
  by (simp_all add: flight_inv_def state_defs Let_def split: AttackRef.splits)

lemma flight_inv_tick:
  assumes "flight_inv 0 (state e)"
  shows "flight_inv 0 (state (tick e))"
proof (cases "playerAlive (state e)")
  case False
  then show ?thesis using assms by (simp add: tick_def)
next
  case True
  let ?e1 = "e\<lparr>state := (state e)\<lparr>currentFrame := currentFrame (state e) + 1\<rparr>\<rparr>"
  have "flight_inv 1 (state ?e1)"
    using assms by (auto simp add: flight_inv_def split: AttackRef.splits)
  then have "flight_inv 1 (state (processBossAI ?e1))"
    by (rule flight_inv_processBossAI)
  then have "flight_inv 0 (processAttackCollision (state (processBossAI ?e1)))"
    by (rule flight_inv_processAttackCollision)
  then show ?thesis
    using True by (simp add: tick_def Let_def flight_inv_rest)
qed

lemma flight_inv_exec:
  assumes "flight_inv 0 (state e)"
  shows "flight_inv 0 (state (exec c e))"
proof (cases c)
  case Tick
  then show ?thesis using assms by (simp add: flight_inv_tick)
next
  case (AttemptParry z acc)
  then show ?thesis
    using assms
    by (auto simp add: attemptParry_def Let_def flight_inv_def handleParry_def
        triggerVulnerability_def dealDamageToBoss_def split: AttackRef.splits)
qed (use assms in \<open>auto simp add: flight_inv_def moveShield_def playerAttack_def
      setPracticeAttack_def forceAttack_def split: AttackRef.splits\<close>)

lemma flight_inv_run: "flight_inv 0 (state e) \<Longrightarrow> flight_inv 0 (state (run cs e))"
  by (induction cs arbitrary: e) (simp_all add: flight_inv_exec)

text \<open>
  In a run the impact is resolved when \<open>windupFrames + IMPACT_DELAY_FRAMES\<close> frames have
  elapsed, so an attack with an unprocessed hit is younger than that: of the window of
  \<open>attemptParry\<close>, only the frames before the impact can be met with the hit unprocessed.
\<close>

lemma unprocessed_hit_is_young:
  assumes "bossCurrentAttack (state (run cs (CombatSystem_new seed maxHP md now))) = Active a"
    and "\<not> bossAttackHitProcessed (state (run cs (CombatSystem_new seed maxHP md now)))"
  shows "currentFrame (state (run cs (CombatSystem_new seed maxHP md now)))
       - bossAttackStartFrame (state (run cs (CombatSystem_new seed maxHP md now)))
     < windupFrames a + IMPACT_DELAY_FRAMES"
proof -
  have "flight_inv 0 (state (CombatSystem_new seed maxHP md now))"
    by (simp add: flight_inv_def CombatSystem_new_def)
  then have "flight_inv 0 (state (run cs (CombatSystem_new seed maxHP md now)))"
    by (rule flight_inv_run)
  then show ?thesis
    using assms by (simp add: flight_inv_def)
qed

section \<open>Damage accounting\<close>

lemma bossMaxHP_state_steps:
  "bossMaxHP (dealDamageToBoss d s) = bossMaxHP s"
  "bossMaxHP (triggerVulnerability s) = bossMaxHP s"
  "bossMaxHP (handleParry acc s) = bossMaxHP s"
  "bossMaxHP (handleBlock s) = bossMaxHP s"
  "bossMaxHP (handlePlayerDeath s) = bossMaxHP s"
  "bossMaxHP (executeAttack a s) = bossMaxHP s"
  "bossMaxHP (processAttackCollision s) = bossMaxHP s"
  "bossMaxHP (processPlayerAttack s) = bossMaxHP s"
  "bossMaxHP (processVulnerability s) = bossMaxHP s"
  "bossMaxHP (staggerDecay s) = bossMaxHP s"
  by (simp_all add: state_defs Let_def split: AttackRef.splits)

lemma bossMaxHP_processBossAI:
  "bossMaxHP (state (processBossAI e)) = bossMaxHP (state e)"
  by (simp add: processBossAI_def randomAttack_def startBossAttack_def Let_def
      bossMaxHP_state_steps split: list.splits option.splits prod.splits)

lemma bossMaxHP_exec: "bossMaxHP (state (exec c e)) = bossMaxHP (state e)"
  by (cases c)
    (simp_all add: tick_def moveShield_def attemptParry_def playerAttack_def
      setPracticeAttack_def forceAttack_def Let_def bossMaxHP_state_steps
      bossMaxHP_processBossAI split: AttackRef.splits)

lemma bossMaxHP_run: "bossMaxHP (state (run cs e)) = bossMaxHP (state e)"
  by (induction cs arbitrary: e) (simp_all add: bossMaxHP_exec)

lemma fl_int_exact:
  assumes "\<bar>k\<bar> \<le> (2 :: int) ^ 53"
  shows "fl (of_int k) = of_int k"
proof (cases "\<bar>k\<bar> < 2 ^ 53")
  case True
  then show ?thesis using fl_int [of k] by auto
next
  case False
  then have "k = 9007199254740992 \<or> k = - 9007199254740992"
    using assms by simp linarith
  moreover have "fl 9007199254740992 = 9007199254740992"
    by code_simp
  moreover have "fl (- 9007199254740992) = - 9007199254740992"
    by code_simp
  ultimately show ?thesis by auto
qed

lemma hp_inv_iff:
  "hp_inv m k s \<longleftrightarrow> \<not> bossDesperation s \<and> bossMaxHP s = of_int m
     \<and> (\<exists>d. 0 \<le> d \<and> d \<le> k \<and> damageDealt s = of_int d \<and> bossHP s = of_int (m - d))"
proof
  assume h: "hp_inv m k s"
  let ?d = "\<lfloor>damageDealt s\<rfloor>"
  have d: "damageDealt s = of_int ?d" using h by (simp add: hp_inv_def)
  have "0 \<le> (of_int ?d :: rat)" "(of_int ?d :: rat) \<le> of_int k"
    using h d by (simp_all add: hp_inv_def)
  then have "0 \<le> ?d" "?d \<le> k" by simp_all
  moreover have "bossHP s + damageDealt s = of_int m"
    using h by (simp add: hp_inv_def)
  then have "bossHP s = of_int m - of_int ?d"
    using d by linarith
  then have "bossHP s = of_int (m - ?d)"
    by simp
  ultimately have "\<exists>d. 0 \<le> d \<and> d \<le> k \<and> damageDealt s = of_int d \<and> bossHP s = of_int (m - d)"
    using d by blast
  moreover have "\<not> bossDesperation s" "bossMaxHP s = of_int m"
    using h by (simp_all add: hp_inv_def)
  ultimately show "\<not> bossDesperation s \<and> bossMaxHP s = of_int m
     \<and> (\<exists>d. 0 \<le> d \<and> d \<le> k \<and> damageDealt s = of_int d \<and> bossHP s = of_int (m - d))"
    by blast
next
  assume "\<not> bossDesperation s \<and> bossMaxHP s = of_int m
     \<and> (\<exists>d. 0 \<le> d \<and> d \<le> k \<and> damageDealt s = of_int d \<and> bossHP s = of_int (m - d))"
  then show "hp_inv m k s"
    by (auto simp add: hp_inv_def)
qed

lemma hp_inv_mono: "hp_inv m k s \<Longrightarrow> k \<le> k' \<Longrightarrow> hp_inv m k' s"
  by (simp add: hp_inv_def)

text \<open>A hit of 1 is exact while the values stay within \<open>2 ^ 53\<close>.\<close>

lemma hp_inv_dealDamageToBoss:
  assumes "hp_inv m k s" "\<bar>m\<bar> \<le> 2 ^ 53" "k < 2 ^ 53" "- (2 ^ 53) < m - k"
  shows "hp_inv m (k + 1) (dealDamageToBoss SAFE_ATTACK_DAMAGE s)"
proof -
  obtain d where d: "0 \<le> d" "d \<le> k" "damageDealt s = of_int d" "bossHP s = of_int (m - d)"
    and n: "\<not> bossDesperation s" "bossMaxHP s = of_int m"
    using assms(1) by (auto simp add: hp_inv_iff)
  have "\<bar>d + 1\<bar> \<le> 2 ^ 53" using d(1,2) assms(3) by linarith
  then have "fl (of_int (d + 1)) = of_int (d + 1)" by (rule fl_int_exact)
  then have a: "fl (of_int d + 1) = of_int (d + 1)" by simp
  have "\<bar>m - d - 1\<bar> \<le> 2 ^ 53" using d(1,2) assms(2,4) by linarith
  then have "fl (of_int (m - d - 1)) = of_int (m - d - 1)" by (rule fl_int_exact)
  then have b: "fl (of_int (m - d) - 1) = of_int (m - (d + 1))" by simp
  have "0 \<le> d + 1" "d + 1 \<le> k + 1" using d(1,2) by simp_all
  then show ?thesis
    unfolding hp_inv_iff
    using n a b d(3,4)
    by (auto simp add: dealDamageToBoss_def SAFE_ATTACK_DAMAGE_def intro!: exI [of _ "d + 1"])
qed

lemma hp_inv_state_steps:
  "hp_inv m k (triggerVulnerability s) = hp_inv m k s"
  "hp_inv m k (handleBlock s) = hp_inv m k s"
  "hp_inv m k (handlePlayerDeath s) = hp_inv m k s"
  "hp_inv m k (executeAttack a s) = hp_inv m k s"
  "hp_inv m k (processAttackCollision s) = hp_inv m k s"
  "hp_inv m k (staggerDecay s) = hp_inv m k s"
  by (auto simp add: hp_inv_def state_defs Let_def split: AttackRef.splits)

lemma hp_inv_handleParry: "hp_inv m k s \<Longrightarrow> hp_inv m k (handleParry acc s)"
  by (simp add: hp_inv_def handleParry_def triggerVulnerability_def Let_def)

lemma hp_inv_processVulnerability: "hp_inv m k s \<Longrightarrow> hp_inv m k (processVulnerability s)"
  by (simp add: hp_inv_def processVulnerability_def)

lemma hp_inv_processPlayerAttack:
  assumes "hp_inv m k s" "\<bar>m\<bar> \<le> 2 ^ 53" "k < 2 ^ 53" "- (2 ^ 53) < m - k"
  shows "hp_inv m (k + 1) (processPlayerAttack s)"
proof -
  have u: "hp_inv m k' (s'\<lparr>playerAttacking := b\<rparr>) = hp_inv m k' s'" for k' s' b
    by (simp add: hp_inv_def)
  have 1: "hp_inv m (k + 1) s"
    using assms(1) by (rule hp_inv_mono) simp
  have 2: "hp_inv m (k + 1) (dealDamageToBoss SAFE_ATTACK_DAMAGE s)"
    using assms by (rule hp_inv_dealDamageToBoss)
  show ?thesis
    using 1 2 by (simp add: processPlayerAttack_def Let_def u)
qed

lemma hp_inv_processBossAI:
  "hp_inv m k (state (processBossAI e)) = hp_inv m k (state e)"
  by (simp add: processBossAI_def randomAttack_def startBossAttack_def Let_def
      hp_inv_state_steps split: list.splits option.splits prod.splits)

lemma hp_inv_update [simp]:
  "hp_inv m k (s\<lparr>currentFrame := n\<rparr>) = hp_inv m k s"
  "hp_inv m k (s\<lparr>bossAttackHitProcessed := b\<rparr>) = hp_inv m k s"
  "hp_inv m k (s\<lparr>playerShieldZone := z\<rparr>) = hp_inv m k s"
  "hp_inv m k (s\<lparr>playerAttacking := b, playerAttackFrame := n\<rparr>) = hp_inv m k s"
  "hp_inv m k (s\<lparr>enabledAttacks := en\<rparr>) = hp_inv m k s"
  by (simp_all add: hp_inv_def)

lemma hp_inv_tick:
  assumes "hp_inv m k (state e)" "\<bar>m\<bar> \<le> 2 ^ 53" "k < 2 ^ 53" "- (2 ^ 53) < m - k"
  shows "hp_inv m (k + 1) (state (tick e))"
proof (cases "playerAlive (state e)")
  case False
  then have "tick e = e" by (simp add: tick_def)
  then show ?thesis using hp_inv_mono [OF assms(1), of "k + 1"] by simp
next
  case True
  let ?e1 = "e\<lparr>state := (state e)\<lparr>currentFrame := currentFrame (state e) + 1\<rparr>\<rparr>"
  let ?s2 = "state (processBossAI ?e1)"
  have "hp_inv m k ?s2"
    using assms(1) by (simp add: hp_inv_processBossAI)
  then have "hp_inv m k (processAttackCollision ?s2)"
    by (simp add: hp_inv_state_steps)
  then have "hp_inv m (k + 1) (processPlayerAttack (processAttackCollision ?s2))"
    using assms(2,3,4) by (rule hp_inv_processPlayerAttack)
  then have "hp_inv m (k + 1) (staggerDecay (processPlayerAttack (processAttackCollision ?s2)))"
    by (simp add: hp_inv_state_steps)
  then have "hp_inv m (k + 1) (processVulnerability
      (staggerDecay (processPlayerAttack (processAttackCollision ?s2))))"
    by (rule hp_inv_processVulnerability)
  then show ?thesis
    using True by (simp add: tick_def Let_def)
qed

lemma hp_inv_attemptParry:
  assumes "hp_inv m k (state e)"
  shows "hp_inv m k (state (snd (attemptParry z acc e)))"
proof -
  have "hp_inv m k (handleParry acc (state e))"
    using assms by (rule hp_inv_handleParry)
  then show ?thesis
    using assms by (simp add: attemptParry_def Let_def split: AttackRef.splits)
qed

lemma hp_inv_exec:
  assumes "hp_inv m k (state e)" "\<bar>m\<bar> \<le> 2 ^ 53" "k < 2 ^ 53" "- (2 ^ 53) < m - k"
  shows "hp_inv m (k + 1) (state (exec c e))"
proof (cases c)
  case Tick
  then show ?thesis using hp_inv_tick [OF assms] by simp
next
  case (AttemptParry z acc)
  then show ?thesis
    using hp_inv_mono [OF hp_inv_attemptParry [OF assms(1)], of "k + 1"] by simp
next
  case (MoveShield z)
  then show ?thesis
    using hp_inv_mono [OF assms(1), of "k + 1"] by (simp add: moveShield_def)
next
  case PlayerAttack
  then show ?thesis
    using hp_inv_mono [OF assms(1), of "k + 1"] by (simp add: playerAttack_def)
next
  case (SetPracticeAttack a b)
  then show ?thesis
    using hp_inv_mono [OF assms(1), of "k + 1"] by (simp add: setPracticeAttack_def)
next
  case (ForceAttack a)
  then show ?thesis
    using hp_inv_mono [OF assms(1), of "k + 1"] by (simp add: forceAttack_def)
qed

lemma hp_inv_run:
  assumes "\<bar>m\<bar> \<le> 2 ^ 53"
  shows "hp_inv m k (state e) \<Longrightarrow> k + int (length cs) \<le> 2 ^ 53 + min 0 m
     \<Longrightarrow> hp_inv m (k + int (length cs)) (state (run cs e))"
proof (induction cs arbitrary: e k)
  case Nil
  then show ?case by simp
next
  case (Cons c cs)
  have b: "k < 2 ^ 53" "- (2 ^ 53) < m - k"
    using Cons.prems(2) by simp_all
  have 1: "hp_inv m (k + 1) (state (exec c e))"
    using Cons.prems(1) assms b by (rule hp_inv_exec)
  have 2: "k + 1 + int (length cs) \<le> 2 ^ 53 + min 0 m"
    using Cons.prems(2) by simp
  have "hp_inv m (k + 1 + int (length cs)) (state (run cs (exec c e)))"
    using 1 2 by (rule Cons.IH)
  then show ?case by (simp add: add.assoc)
qed

lemma hp_inv_new: "hp_inv m 0 (state (CombatSystem_new seed (of_int m) md now))"
  by (simp add: hp_inv_def CombatSystem_new_def)

text \<open>
  Claim C10, amended. No operation changes \<open>bossMaxHP\<close> after construction. When the
  constructor is given an integer max-HP \<open>m\<close> with \<open>\<bar>m\<bar> \<le> 2 ^ 53\<close>, then in every state
  reached by at most \<open>2 ^ 53 + min 0 m\<close> ticks and commands,
  \<open>bossHP + damageDealt = bossMaxHP\<close>: hit points and damage are doubles, and up to there
  every subtraction and addition of \<open>dealDamageToBoss\<close> is exact.
\<close>

theorem damage_accounting:
  "bossMaxHP (getState (run cs (CombatSystem_new seed maxHP md now))) = maxHP
   \<and> (maxHP = of_int m \<and> \<bar>m\<bar> \<le> 2 ^ 53 \<and> int (length cs) \<le> 2 ^ 53 + min 0 m \<longrightarrow>
        bossHP (getState (run cs (CombatSystem_new seed maxHP md now)))
          + damageDealt (getState (run cs (CombatSystem_new seed maxHP md now)))
          = bossMaxHP (getState (run cs (CombatSystem_new seed maxHP md now))))"
proof -
  let ?r = "run cs (CombatSystem_new seed maxHP md now)"
  have 1: "bossMaxHP (state ?r) = maxHP"
    by (simp add: bossMaxHP_run CombatSystem_new_def)
  have 2: "bossHP (state ?r) + damageDealt (state ?r) = bossMaxHP (state ?r)"
    if h: "maxHP = of_int m" "\<bar>m\<bar> \<le> 2 ^ 53" "int (length cs) \<le> 2 ^ 53 + min 0 m"
  proof -
    have b: "0 + int (length cs) \<le> 2 ^ 53 + min 0 m"
      using h(3) by simp
    have "hp_inv m (0 + int (length cs)) (state (run cs (CombatSystem_new seed (of_int m) md now)))"
      using h(2) hp_inv_new b by (rule hp_inv_run)
    then have "bossHP (state ?r) + damageDealt (state ?r) = of_int m"
      by (simp add: hp_inv_def h(1))
    then show ?thesis
      using 1 h(1) by simp
  qed
  show ?thesis
    unfolding getState_def using 1 2 by blast
qed

text \<open>Without a strike under way and without desperation no step deals damage.\<close>

lemma unhurt_state_steps:
  "unhurt h d (triggerVulnerability s) = unhurt h d s"
  "unhurt h d (handleBlock s) = unhurt h d s"
  "unhurt h d (handlePlayerDeath s) = unhurt h d s"
  "unhurt h d (executeAttack a s) = unhurt h d s"
  "unhurt h d (processAttackCollision s) = unhurt h d s"
  "unhurt h d (staggerDecay s) = unhurt h d s"
  by (auto simp add: unhurt_def state_defs Let_def split: AttackRef.splits)

lemma unhurt_handleParry: "unhurt h d s \<Longrightarrow> unhurt h d (handleParry acc s)"
  by (simp add: unhurt_def handleParry_def triggerVulnerability_def Let_def)

lemma unhurt_processVulnerability: "unhurt h d s \<Longrightarrow> unhurt h d (processVulnerability s)"
  by (simp add: unhurt_def processVulnerability_def)

lemma unhurt_processPlayerAttack: "unhurt h d s \<Longrightarrow> processPlayerAttack s = s"
  by (simp add: unhurt_def processPlayerAttack_def)

lemma unhurt_processBossAI:
  "unhurt h d (state (processBossAI e)) = unhurt h d (state e)"
  by (simp add: processBossAI_def randomAttack_def startBossAttack_def Let_def
      unhurt_state_steps split: list.splits option.splits prod.splits)

lemma unhurt_update [simp]:
  "unhurt h d (s\<lparr>currentFrame := n\<rparr>) = unhurt h d s"
  "unhurt h d (s\<lparr>bossAttackHitProcessed := b\<rparr>) = unhurt h d s"
  "unhurt h d (s\<lparr>playerShieldZone := z\<rparr>) = unhurt h d s"
  "unhurt h d (s\<lparr>enabledAttacks := en\<rparr>) = unhurt h d s"
  by (simp_all add: unhurt_def)

lemma unhurt_tick:
  assumes "unhurt h d (state e)"
  shows "unhurt h d (state (tick e))"
proof (cases "playerAlive (state e)")
  case False
  then have "tick e = e" by (simp add: tick_def)
  then show ?thesis using assms by simp
next
  case True
  let ?e1 = "e\<lparr>state := (state e)\<lparr>currentFrame := currentFrame (state e) + 1\<rparr>\<rparr>"
  let ?s2 = "state (processBossAI ?e1)"
  have "unhurt h d ?s2"
    using assms by (simp add: unhurt_processBossAI)
  then have c: "unhurt h d (processAttackCollision ?s2)"
    by (simp add: unhurt_state_steps)
  then have p: "processPlayerAttack (processAttackCollision ?s2) = processAttackCollision ?s2"
    by (rule unhurt_processPlayerAttack)
  have "unhurt h d (staggerDecay (processAttackCollision ?s2))"
    using c by (simp add: unhurt_state_steps)
  then have "unhurt h d (processVulnerability (staggerDecay (processAttackCollision ?s2)))"
    by (rule unhurt_processVulnerability)
  then show ?thesis
    using True by (simp add: tick_def Let_def p)
qed

lemma unhurt_attemptParry:
  assumes "unhurt h d (state e)"
  shows "unhurt h d (state (snd (attemptParry z acc e)))"
proof -
  have "unhurt h d (handleParry acc (state e))"
    using assms by (rule unhurt_handleParry)
  then show ?thesis
    using assms by (simp add: attemptParry_def Let_def split: AttackRef.splits)
qed

lemma unhurt_exec:
  assumes "unhurt h d (state e)" "c \<noteq> PlayerAttack"
  shows "unhurt h d (state (exec c e))"
proof (cases c)
  case Tick
  then show ?thesis using unhurt_tick [OF assms(1)] by simp
next
  case (AttemptParry z acc)
  then show ?thesis using unhurt_attemptParry [OF assms(1)] by simp
next
  case (MoveShield z)
  then show ?thesis using assms(1) by (simp add: moveShield_def)
next
  case PlayerAttack
  then show ?thesis using assms(2) by simp
next
  case (SetPracticeAttack a b)
  then show ?thesis using assms(1) by (simp add: setPracticeAttack_def)
next
  case (ForceAttack a)
  then show ?thesis using assms(1) by (simp add: forceAttack_def)
qed

lemma unhurt_run:
  "unhurt h d (state e) \<Longrightarrow> PlayerAttack \<notin> set cs \<Longrightarrow> unhurt h d (state (run cs e))"
proof (induction cs arbitrary: e)
  case Nil
  then show ?case by simp
next
  case (Cons c cs)
  have "unhurt h d (state (exec c e))"
    using Cons.prems by (intro unhurt_exec) auto
  then show ?case
    using Cons.prems(2) Cons.IH by simp
qed

text \<open>The parry that fills the meter leaves the boss vulnerable from the current frame.\<close>

lemma calm_parry_opened:
  assumes "calm (Active bash_center) el False lo hi e" "55 \<le> el" "el < 140"
    and "63 \<le> lo" "hi \<le> 90"
  shows "opened 0 (state (snd (attemptParry ZONE_CENTER 1 e)))"
proof -
  have c: "0 \<le> bossStagger (state e)" "lo \<le> bossStagger (state e)"
    "bossStagger (state e) \<le> hi" "playerAlive (state e)"
    using assms(1) by (simp_all add: calm_def)
  have x: "bossStagger (state e) \<le> 90" using c(3) assms(5) by linarith
  have "bossStagger (state e) + 37 \<le> fl (bossStagger (state e) + 75 / 2)"
    using perfect_parry_bounds [OF c(1) x] by simp
  then have n: "STAGGER_MAX \<le> fl (bossStagger (state e) + 75 / 2)"
    using c(2) assms(4) by (simp add: STAGGER_MAX_def)
  show ?thesis
    using attemptParry_perfect(1) [OF assms(1,2,3)] c(4)
    by (simp add: n triggerVulnerability_def opened_def)
qed

lemma stagger_cmds_opened:
  "opened 0 (state (run stagger_cmds (CombatSystem_new seed maxHP PRACTICE now)))"
  "unhurt maxHP 0 (state (run stagger_cmds (CombatSystem_new seed maxHP PRACTICE now)))"
proof -
  obtain e where e: "calm (Active bash_center) 55 False (6944 / 100) 76 e"
      "run stagger_cmds (CombatSystem_new seed maxHP PRACTICE now)
         = snd (attemptParry ZONE_CENTER 1 e)"
    using stagger_cmds_calm by blast
  have "opened 0 (state (snd (attemptParry ZONE_CENTER 1 e)))"
    using e(1) by (rule calm_parry_opened) simp_all
  then show "opened 0 (state (run stagger_cmds (CombatSystem_new seed maxHP PRACTICE now)))"
    by (simp only: e(2))
  have "unhurt maxHP 0 (state (CombatSystem_new seed maxHP PRACTICE now))"
    by (simp add: unhurt_def CombatSystem_new_def)
  then show "unhurt maxHP 0 (state (run stagger_cmds (CombatSystem_new seed maxHP PRACTICE now)))"
    by (rule unhurt_run)
      (auto simp add: stagger_cmds_def parry_round_def parry_opening_def)
qed

lemma playerAttack_opened:
  assumes "opened v (state e)" "unhurt h d (state e)"
  shows "striking 0 v h d (state (playerAttack e))"
  using assms by (simp add: opened_def unhurt_def striking_def playerAttack_def)

text \<open>A tick during a strike: the hit lands at the tenth frame of the strike.\<close>

lemma tick_striking:
  assumes "striking k v h d (state e)" "k + 1 < 20" "v + 1 < 180"
  shows "striking (k + 1) (v + 1) (if k + 1 = 10 then fl (h - 1) else h)
     (if k + 1 = 10 then fl (d + 1) else d) (state (tick e))"
proof -
  let ?s1 = "(state e)\<lparr>currentFrame := currentFrame (state e) + 1\<rparr>"
  let ?e1 = "e\<lparr>state := ?s1\<rparr>"
  have f: "playerAlive (state e)" "bossVulnerable (state e)"
    "bossCurrentAttack (state e) = Null" "playerAttacking (state e)"
    "currentFrame (state e) - bossVulnerableFrame (state e) = v"
    "currentFrame (state e) - playerAttackFrame (state e) = k"
    "bossHP (state e) = h" "damageDealt (state e) = d"
    using assms(1) by (simp_all add: striking_def opened_def)
  have b: "processBossAI ?e1 = ?e1"
    using f(2) by (simp add: processBossAI_def)
  have c: "processAttackCollision ?s1 = ?s1"
    using f(3) by (simp add: processAttackCollision_def)
  have k: "currentFrame ?s1 - playerAttackFrame ?s1 = k + 1"
    using f(6) by simp
  have p: "processPlayerAttack ?s1
      = (if k + 1 = 10 then dealDamageToBoss SAFE_ATTACK_DAMAGE ?s1 else ?s1)"
    using f(2,4) assms(2) k by (simp add: processPlayerAttack_def Let_def)
  let ?s3 = "if k + 1 = 10 then dealDamageToBoss SAFE_ATTACK_DAMAGE ?s1 else ?s1"
  have v3: "bossVulnerable ?s3" "currentFrame ?s3 - bossVulnerableFrame ?s3 = v + 1"
    using f(2,5) by (simp_all add: dealDamageToBoss_def)
  have d0: "staggerDecay s = s" if "bossVulnerable s" for s
    using that by (simp add: staggerDecay_def)
  have w0: "processVulnerability s = s"
    if "bossVulnerable s" "currentFrame s - bossVulnerableFrame s = v + 1" for s
    using that assms(3) by (simp add: processVulnerability_def VULNERABILITY_DURATION_FRAMES_def)
  have d: "staggerDecay ?s3 = ?s3"
    using v3(1) by (rule d0)
  have w: "processVulnerability ?s3 = ?s3"
    using v3 by (rule w0)
  have "state (tick e) = processVulnerability (staggerDecay (processPlayerAttack
      (processAttackCollision (state (processBossAI ?e1)))))"
    using f(1) by (simp add: tick_def Let_def)
  also have "\<dots> = processVulnerability (staggerDecay (processPlayerAttack
      (processAttackCollision ?s1)))"
    by (simp only: b) simp
  also have "\<dots> = processVulnerability (staggerDecay ?s3)"
    by (simp only: c p)
  also have "\<dots> = ?s3"
    by (simp only: d w)
  finally have "state (tick e) = ?s3" .
  then show ?thesis
    using f by (simp add: striking_def opened_def dealDamageToBoss_def SAFE_ATTACK_DAMAGE_def)
qed

lemma ticks_striking:
  "striking k v h d (state e) \<Longrightarrow> k + int n < 10 \<Longrightarrow> v + int n < 180
     \<Longrightarrow> striking (k + int n) (v + int n) h d (state (ticks n e))"
proof (induction n arbitrary: e k v)
  case 0
  then show ?case by simp
next
  case (Suc n)
  have "striking (k + 1) (v + 1) (if k + 1 = 10 then fl (h - 1) else h)
     (if k + 1 = 10 then fl (d + 1) else d) (state (tick e))"
    using Suc.prems by (intro tick_striking) simp_all
  then have 1: "striking (k + 1) (v + 1) h d (state (tick e))"
    using Suc.prems(2) by simp
  have "striking (k + 1 + int n) (v + 1 + int n) h d (state (ticks n (tick e)))"
    using 1 Suc.prems(2,3) by (intro Suc.IH) simp_all
  then show ?case by (simp add: add.assoc)
qed

text \<open>
  The run \<open>strike_cmds\<close> lands one hit: \<open>bossHP\<close> is the rounded difference and
  \<open>damageDealt\<close> is 1.
\<close>

lemma strike_cmds_hit:
  "bossHP (state (run strike_cmds (CombatSystem_new seed maxHP PRACTICE now))) = fl (maxHP - 1)"
  "damageDealt (state (run strike_cmds (CombatSystem_new seed maxHP PRACTICE now))) = 1"
proof -
  let ?e1 = "run stagger_cmds (CombatSystem_new seed maxHP PRACTICE now)"
  let ?e2 = "playerAttack ?e1"
  have 2: "striking 0 0 maxHP 0 (state ?e2)"
    using stagger_cmds_opened by (rule playerAttack_opened)
  have "striking (0 + int 9) (0 + int 9) maxHP 0 (state (ticks 9 ?e2))"
    using 2 by (rule ticks_striking) simp_all
  then have 3: "striking 9 9 maxHP 0 (state (ticks 9 ?e2))"
    by simp
  have "striking (9 + 1) (9 + 1) (if (9 :: int) + 1 = 10 then fl (maxHP - 1) else maxHP)
     (if (9 :: int) + 1 = 10 then fl (0 + 1) else 0) (state (tick (ticks 9 ?e2)))"
    using 3 by (rule tick_striking) simp_all
  moreover have "fl 1 = 1"
    by code_simp
  ultimately have 4: "striking 10 10 (fl (maxHP - 1)) 1 (state (tick (ticks 9 ?e2)))"
    by simp
  have "run strike_cmds (CombatSystem_new seed maxHP PRACTICE now) = ticks 10 ?e2"
    by (simp add: strike_cmds_def run_append run_replicate_Tick)
  also have "\<dots> = tick (ticks 9 ?e2)"
    using ticks_Suc_end [of 9 ?e2] by simp
  finally have r: "run strike_cmds (CombatSystem_new seed maxHP PRACTICE now)
      = tick (ticks 9 ?e2)" .
  show "bossHP (state (run strike_cmds (CombatSystem_new seed maxHP PRACTICE now)))
      = fl (maxHP - 1)"
    using 4 by (simp add: r striking_def)
  show "damageDealt (state (run strike_cmds (CombatSystem_new seed maxHP PRACTICE now))) = 1"
    using 4 by (simp add: r striking_def)
qed

text \<open>
  The accounting after one hit: max-HP 10 in practice mode, the boss made vulnerable and
  struck once.
\<close>

theorem damage_accounting_witness:
  "(10 :: rat) = of_int 10 \<and> \<bar>10 :: int\<bar> \<le> 2 ^ 53
   \<and> int (length strike_cmds) \<le> 2 ^ 53 + min 0 10
   \<and> damageDealt (getState (run strike_cmds (CombatSystem_new 0 10 PRACTICE 0))) = 1
   \<and> bossMaxHP (getState (run strike_cmds (CombatSystem_new 0 10 PRACTICE 0))) = 10
   \<and> bossHP (getState (run strike_cmds (CombatSystem_new 0 10 PRACTICE 0)))
       + damageDealt (getState (run strike_cmds (CombatSystem_new 0 10 PRACTICE 0)))
       = bossMaxHP (getState (run strike_cmds (CombatSystem_new 0 10 PRACTICE 0)))"
proof -
  have l: "int (length strike_cmds) \<le> 2 ^ 53 + min 0 10"
    by (simp add: strike_cmds_def stagger_cmds_def parry_round_def parry_opening_def)
  show ?thesis
    using damage_accounting [of strike_cmds 0 10 PRACTICE 0 10] l
      strike_cmds_hit(2) [of 0 10 0]
    by (simp add: getState_def)
qed

text \<open>
  Claim C10 as stated fails for a max-HP beyond \<open>2 ^ 53\<close>: with \<open>bossMaxHP = 2 ^ 53 + 2\<close>
  the first hit rounds \<open>bossHP\<close> to \<open>2 ^ 53\<close>, so that two hit points are gone for one
  point of damage dealt.
\<close>

theorem damage_accounting_counterexample:
  "bossHP (getState (run strike_cmds (CombatSystem_new 0 9007199254740994 PRACTICE 0)))
     = 9007199254740992
   \<and> damageDealt (getState (run strike_cmds (CombatSystem_new 0 9007199254740994 PRACTICE 0)))
     = 1
   \<and> bossMaxHP (getState (run strike_cmds (CombatSystem_new 0 9007199254740994 PRACTICE 0)))
     = 9007199254740994
   \<and> bossHP (getState (run strike_cmds (CombatSystem_new 0 9007199254740994 PRACTICE 0)))
       + damageDealt (getState (run strike_cmds (CombatSystem_new 0 9007199254740994 PRACTICE 0)))
     \<noteq> bossMaxHP (getState (run strike_cmds (CombatSystem_new 0 9007199254740994 PRACTICE 0)))"
proof -
  have "fl (9007199254740994 - 1) = 9007199254740992"
    by code_simp
  then show ?thesis
    using strike_cmds_hit [of 0 9007199254740994 0]
    by (simp add: getState_def bossMaxHP_run CombatSystem_new_def)
qed

end
